theory Spec2Isabelle
  imports Main "HOL-Library.Multiset"
begin

section \<open>JavaScript values\<close>

text \<open>
  Event payloads arrive as deserialised JSON. A value is one of the JavaScript primitives or
  an object. An object carries its reference (its address) besides its own properties: a
  \<open>Map\<close> compares object keys by reference, and two values of this type that stand for the
  same object have the same reference and the same properties, so equality in HOL is the
  \<open>SameValueZero\<close> comparison of \<open>Map\<close> and \<open>Set\<close>. The list of an object names each own
  property once. An array carries its reference and its elements. Numbers are integers here
  (a JSON number may be a fraction; no fraction is falsy and none is compared with anything
  but itself).
\<close>

datatype jsval =
    JUndefined
  | JNull
  | JBool bool
  | JNum int
  | JStr string
  | JObj nat "(string \<times> jsval) list"
  | JArr nat "jsval list"

datatype js_error = TypeError

text \<open>\<open>!v\<close> is \<open>\<not> truthy v\<close>; \<open>!!v\<close> is \<open>truthy v\<close>; \<open>a || b\<close> is \<open>js_or a b\<close>.\<close>

fun truthy :: "jsval \<Rightarrow> bool" where
  "truthy JUndefined = False"
| "truthy JNull = False"
| "truthy (JBool b) = b"
| "truthy (JNum n) = (n \<noteq> 0)"
| "truthy (JStr s) = (s \<noteq> [])"
| "truthy (JObj r ps) = True"
| "truthy (JArr r xs) = True"

definition js_or :: "jsval \<Rightarrow> jsval \<Rightarrow> jsval" where
  "js_or a b = (if truthy a then a else b)"

text \<open>
  Destructuring a parameter \<open>({ roomId, userId })\<close> throws a \<open>TypeError\<close> when the argument
  is \<open>undefined\<close> or \<open>null\<close> and reads the named properties otherwise. The names the
  handlers read (\<open>roomId\<close>, \<open>userId\<close>, \<open>displayName\<close>, \<open>allow\<close>, \<open>to\<close>, \<open>sdp\<close>,
  \<open>candidate\<close>) are properties of no primitive wrapper, of no array and of no prototype, so
  a primitive and an array give \<open>undefined\<close> for each of them.
\<close>

fun nullish :: "jsval \<Rightarrow> bool" where
  "nullish JUndefined = True"
| "nullish JNull = True"
| "nullish v = False"

fun js_prop :: "jsval \<Rightarrow> string \<Rightarrow> jsval" where
  "js_prop (JObj r ps) k = (case map_of ps k of None \<Rightarrow> JUndefined | Some v \<Rightarrow> v)"
| "js_prop v k = JUndefined"

text \<open>
  A template literal \<open>`room:${v}`\<close> converts \<open>v\<close> to a string. A primitive converts without
  fail; an integer of magnitude below \<open>10^21\<close> is printed in decimal digits, and numbers are
  printed so throughout. An object is converted by its \<open>toString\<close> method: a deserialised
  object inherits the one of \<open>Object.prototype\<close>, which gives \<open>[object Object]\<close>, unless
  it has an own property \<open>toString\<close>; that property is no function, \<open>valueOf\<close> returns no
  primitive either, and the conversion throws a \<open>TypeError\<close>. An array is converted by
  \<open>join\<close>: its elements, converted in turn (\<open>null\<close> and \<open>undefined\<close> to the empty
  string), with commas between them.
\<close>

definition digit :: "nat \<Rightarrow> char" where
  "digit d = ''0123456789'' ! d"

fun show_nat :: "nat \<Rightarrow> string" where
  "show_nat n = (if n < 10 then [digit n] else show_nat (n div 10) @ [digit (n mod 10)])"

declare show_nat.simps [simp del]

definition show_int :: "int \<Rightarrow> string" where
  "show_int i = (if i < 0 then CHR ''-'' # show_nat (nat (- i)) else show_nat (nat i))"

fun to_string :: "jsval \<Rightarrow> js_error + string"
  and join_elements :: "jsval list \<Rightarrow> js_error + string" where
  "to_string JUndefined = Inr ''undefined''"
| "to_string JNull = Inr ''null''"
| "to_string (JBool b) = Inr (if b then ''true'' else ''false'')"
| "to_string (JNum n) = Inr (show_int n)"
| "to_string (JStr s) = Inr s"
| "to_string (JObj r ps) =
     (if ''toString'' \<in> fst ` set ps then Inl TypeError else Inr ''[object Object]'')"
| "to_string (JArr r xs) = join_elements xs"
| "join_elements [] = Inr []"
| "join_elements (x # xs) =
     (case (if nullish x then Inr [] else to_string x) of
        Inl e \<Rightarrow> Inl e
      | Inr a \<Rightarrow>
          if xs = [] then Inr a
          else (case join_elements xs of
                  Inl e \<Rightarrow> Inl e
                | Inr b \<Rightarrow> Inr (a @ '','' @ b)))"

definition template :: "string \<Rightarrow> jsval \<Rightarrow> js_error + string" where
  "template prefix v = (case to_string v of Inl e \<Rightarrow> Inl e | Inr a \<Rightarrow> Inr (prefix @ a))"

section \<open>Insertion-ordered Map and Set\<close>

text \<open>
  A JavaScript \<open>Map\<close> iterates in insertion order; \<open>set\<close> on a key that is present keeps
  the key's position, on a new key appends. A \<open>Set\<close> behaves the same way.
\<close>

fun map_set :: "'k \<Rightarrow> 'v \<Rightarrow> ('k \<times> 'v) list \<Rightarrow> ('k \<times> 'v) list" where
  "map_set k v [] = [(k, v)]"
| "map_set k v (e # es) = (if fst e = k then (k, v) # es else e # map_set k v es)"

definition map_get :: "('k \<times> 'v) list \<Rightarrow> 'k \<Rightarrow> 'v option" where
  "map_get m k = map_of m k"

definition map_delete :: "'k \<Rightarrow> ('k \<times> 'v) list \<Rightarrow> ('k \<times> 'v) list" where
  "map_delete k m = filter (\<lambda>e. fst e \<noteq> k) m"

definition set_add :: "'a \<Rightarrow> 'a list \<Rightarrow> 'a list" where
  "set_add x xs = (if x \<in> set xs then xs else xs @ [x])"

definition set_delete :: "'a \<Rightarrow> 'a list \<Rightarrow> 'a list" where
  "set_delete x xs = filter (\<lambda>y. y \<noteq> x) xs"

section \<open>Array.prototype.sort\<close>

text \<open>
  \<open>sort\<close> with a comparator is stable (ECMAScript 2019): \<open>a\<close> comes before \<open>b\<close> when
  \<open>cmp a b < 0\<close>, and elements that compare equal keep their order. With a consistent
  comparator the result is determined; insertion from the right computes it.
\<close>

fun insert_by :: "('a \<Rightarrow> 'a \<Rightarrow> int) \<Rightarrow> 'a \<Rightarrow> 'a list \<Rightarrow> 'a list" where
  "insert_by cmp x [] = [x]"
| "insert_by cmp x (y # ys) = (if cmp x y \<le> 0 then x # y # ys else y # insert_by cmp x ys)"

definition js_sort :: "('a \<Rightarrow> 'a \<Rightarrow> int) \<Rightarrow> 'a list \<Rightarrow> 'a list" where
  "js_sort cmp xs = foldr (insert_by cmp) xs []"

section \<open>The membership store\<close>

type_synonym sid = string

text \<open>
  A participant object \<open>{ userId, displayName, streamAllowed, lastSeen }\<close>. A property that
  the object does not have is \<open>None\<close>; \<open>lastSeen\<close> is set by every write.
\<close>

record participant =
  userId :: "jsval option"
  displayName :: "jsval option"
  streamAllowed :: "bool option"
  lastSeen :: int

text \<open>The \<open>patch\<close> argument of \<open>upsertParticipant\<close>: the properties the caller wrote.\<close>

record patch =
  p_userId :: "jsval option"
  p_displayName :: "jsval option"
  p_streamAllowed :: "bool option"

text \<open>
  \<open>rooms\<close> and \<open>roomAdmins\<close>, the two module-level maps. Only the inner map and the inner
  set are iterated, so only they keep their order.
\<close>

record store =
  rooms :: "jsval \<Rightarrow> (sid \<times> participant) list option"
  roomAdmins :: "jsval \<Rightarrow> sid list option"

definition empty_store :: store where
  "empty_store = \<lparr>rooms = (\<lambda>r. None), roomAdmins = (\<lambda>r. None)\<rparr>"

definition ensureRoom :: "store \<Rightarrow> jsval \<Rightarrow> store" where
  "ensureRoom s roomId =
     (let s1 = (if rooms s roomId = None then s\<lparr>rooms := (rooms s)(roomId \<mapsto> [])\<rparr> else s)
      in if roomAdmins s1 roomId = None
         then s1\<lparr>roomAdmins := (roomAdmins s1)(roomId \<mapsto> [])\<rparr> else s1)"

text \<open>\<open>{ ...prev, ...patch, lastSeen: Date.now() }\<close>, with \<open>prev\<close> the stored object or \<open>{}\<close>.\<close>

definition spread :: "participant option \<Rightarrow> patch \<Rightarrow> int \<Rightarrow> participant" where
  "spread prev pt now =
     \<lparr>userId = (case p_userId pt of Some v \<Rightarrow> Some v
                 | None \<Rightarrow> (case prev of None \<Rightarrow> None | Some p \<Rightarrow> userId p)),
      displayName = (case p_displayName pt of Some v \<Rightarrow> Some v
                 | None \<Rightarrow> (case prev of None \<Rightarrow> None | Some p \<Rightarrow> displayName p)),
      streamAllowed = (case p_streamAllowed pt of Some v \<Rightarrow> Some v
                 | None \<Rightarrow> (case prev of None \<Rightarrow> None | Some p \<Rightarrow> streamAllowed p)),
      lastSeen = now\<rparr>"

text \<open>
  After \<open>ensureRoom\<close> the room is present in both maps (lemmas \<open>ensureRoom_rooms\<close> and
  \<open>ensureRoom_roomAdmins\<close> below), so a \<open>None\<close> branch that follows a call of
  \<open>ensureRoom\<close> for the same room is never taken: in \<open>upsertParticipant\<close>, \<open>listAdmins\<close>,
  \<open>listStreamEnabledParticipants\<close> and in the handlers of \<open>admin:subscribe\<close> and
  \<open>disconnect\<close>. The \<open>None\<close> branch of \<open>removeParticipant\<close> is the source's
  \<open>if (room)\<close>.
\<close>

definition upsertParticipant :: "store \<Rightarrow> jsval \<Rightarrow> sid \<Rightarrow> patch \<Rightarrow> int \<Rightarrow> store" where
  "upsertParticipant s roomId socketId pt now =
     (let s1 = ensureRoom s roomId
      in case rooms s1 roomId of
           None \<Rightarrow> s1
         | Some room \<Rightarrow>
             s1\<lparr>rooms := (rooms s1)(roomId \<mapsto>
                   map_set socketId (spread (map_get room socketId) pt now) room)\<rparr>)"

definition removeParticipant :: "store \<Rightarrow> jsval \<Rightarrow> sid \<Rightarrow> store" where
  "removeParticipant s roomId socketId =
     (case rooms s roomId of
        None \<Rightarrow> s
      | Some room \<Rightarrow> s\<lparr>rooms := (rooms s)(roomId \<mapsto> map_delete socketId room)\<rparr>)"

definition listAdmins :: "store \<Rightarrow> jsval \<Rightarrow> sid list \<times> store" where
  "listAdmins s roomId =
     (let s1 = ensureRoom s roomId
      in (case roomAdmins s1 roomId of None \<Rightarrow> [] | Some admins \<Rightarrow> admins, s1))"

text \<open>An element of the list sent to admins: \<open>{ socketId, userId, displayName, lastSeen }\<close>.\<close>

record entry =
  e_socketId :: sid
  e_userId :: jsval
  e_displayName :: jsval
  e_lastSeen :: int

definition field :: "jsval option \<Rightarrow> jsval" where
  "field v = (case v of None \<Rightarrow> JUndefined | Some x \<Rightarrow> x)"

text \<open>The callback of \<open>.map\<close>: \<open>null\<close> (here \<open>None\<close>) unless \<open>p.streamAllowed\<close> is truthy.\<close>

definition render :: "sid \<times> participant \<Rightarrow> entry option" where
  "render sp =
     (case sp of (socketId, p) \<Rightarrow>
        if streamAllowed p \<noteq> Some True then None
        else Some \<lparr>e_socketId = socketId, e_userId = field (userId p),
                   e_displayName = field (displayName p), e_lastSeen = lastSeen p\<rparr>)"

text \<open>\<open>x || 0\<close> on a number, and the comparator \<open>(b.lastSeen || 0) - (a.lastSeen || 0)\<close>.\<close>

definition or0 :: "int \<Rightarrow> int" where
  "or0 x = (if x \<noteq> 0 then x else 0)"

definition cmp_lastSeen :: "entry \<Rightarrow> entry \<Rightarrow> int" where
  "cmp_lastSeen a b = or0 (e_lastSeen b) - or0 (e_lastSeen a)"

text \<open>\<open>.map(...).filter(Boolean)\<close> is \<open>List.map_filter\<close>: the non-null results, in order.\<close>

definition listStreamEnabledParticipants :: "store \<Rightarrow> jsval \<Rightarrow> entry list \<times> store" where
  "listStreamEnabledParticipants s roomId =
     (let s1 = ensureRoom s roomId
      in (case rooms s1 roomId of
            None \<Rightarrow> []
          | Some room \<Rightarrow> js_sort cmp_lastSeen (List.map_filter render room), s1))"

section \<open>Sends\<close>

text \<open>
  What a handler asks of the transport. \<open>socket.join(g)\<close> enters the group named \<open>g\<close>;
  \<open>socket.emit\<close> addresses the handler's own connection; \<open>io.to(x)\<close> addresses the group
  named \<open>x\<close>, which for the relay events is the value the client sent and otherwise the
  string of a template, \<open>`room:${roomId}`\<close> or \<open>`admin:${roomId}`\<close>.
\<close>

datatype target =
    ToSocket sid
  | To jsval

datatype message =
    AdminList jsval "sid list"
  | RoomUpdate "entry list"
  | StreamAllowed sid jsval bool
  | AdminOnline sid
  | AdminOffline sid
  | Sdp sid jsval
  | Candidate sid jsval

datatype action =
    SocketJoin string
  | Emit target string message

text \<open>
  A function that can throw returns \<open>Inl\<close> with the error, the state as it is when the
  error is thrown and the sends made until then, or \<open>Inr\<close> with the state and the sends.
  In \<open>io.to(`admin:${roomId}`).emit("room:update", listStreamEnabledParticipants(roomId))\<close>
  the template is evaluated before the argument of \<open>emit\<close>.
\<close>

definition broadcastAdminUpdate ::
  "store \<Rightarrow> jsval \<Rightarrow> (js_error \<times> store \<times> action list) + (store \<times> action list)" where
  "broadcastAdminUpdate s roomId =
     (case template ''admin:'' roomId of
        Inl e \<Rightarrow> Inl (e, s, [])
      | Inr g \<Rightarrow>
          (case listStreamEnabledParticipants s roomId of
             (lst, s1) \<Rightarrow> Inr (s1, [Emit (To (JStr g)) ''room:update'' (RoomUpdate lst)])))"

section \<open>The handlers of a connection\<close>

datatype role = Participant | Admin

text \<open>\<open>socket.data\<close>: empty when the connection is made.\<close>

record conn_data =
  d_role :: "role option"
  d_roomId :: jsval
  d_userId :: jsval

definition fresh :: conn_data where
  "fresh = \<lparr>d_role = None, d_roomId = JUndefined, d_userId = JUndefined\<rparr>"

type_synonym result =
  "(js_error \<times> conn_data \<times> store \<times> action list) + (conn_data \<times> store \<times> action list)"

definition on_join :: "sid \<Rightarrow> int \<Rightarrow> jsval \<Rightarrow> conn_data \<Rightarrow> store \<Rightarrow> result" where
  "on_join socket now payload d s =
     (if nullish payload then Inl (TypeError, d, s, [])
      else
        let roomId = js_prop payload ''roomId'';
            userId = js_prop payload ''userId'';
            displayName = js_prop payload ''displayName''
        in if \<not> truthy roomId \<or> \<not> truthy userId then Inr (d, s, [])
           else
             let d1 = d\<lparr>d_role := Some Participant, d_roomId := roomId, d_userId := userId\<rparr>;
                 s1 = ensureRoom s roomId
             in case template ''room:'' roomId of
                  Inl e \<Rightarrow> Inl (e, d1, s1, [])
                | Inr g \<Rightarrow>
                    let s2 = upsertParticipant s1 roomId socket
                               \<lparr>p_userId = Some userId,
                                p_displayName = Some (js_or displayName userId),
                                p_streamAllowed = None\<rparr> now
                    in case listAdmins s2 roomId of
                         (admins, s3) \<Rightarrow>
                           let acts = [SocketJoin g,
                                       Emit (ToSocket socket) ''admin:list''
                                         (AdminList roomId admins)]
                           in case broadcastAdminUpdate s3 roomId of
                                Inl (e, s4, upd) \<Rightarrow> Inl (e, d1, s4, acts @ upd)
                              | Inr (s4, upd) \<Rightarrow> Inr (d1, s4, acts @ upd))"

definition on_ping :: "sid \<Rightarrow> int \<Rightarrow> conn_data \<Rightarrow> store \<Rightarrow> result" where
  "on_ping socket now d s =
     (let roomId = d_roomId d
      in if \<not> truthy roomId then Inr (d, s, [])
         else
           let s1 = upsertParticipant s roomId socket
                      \<lparr>p_userId = None, p_displayName = None, p_streamAllowed = None\<rparr> now
           in case broadcastAdminUpdate s1 roomId of
                Inl (e, s2, upd) \<Rightarrow> Inl (e, d, s2, upd)
              | Inr (s2, upd) \<Rightarrow> Inr (d, s2, upd))"

definition on_stream_consent :: "sid \<Rightarrow> int \<Rightarrow> jsval \<Rightarrow> conn_data \<Rightarrow> store \<Rightarrow> result" where
  "on_stream_consent socket now payload d s =
     (if nullish payload then Inl (TypeError, d, s, [])
      else
        let roomId = js_prop payload ''roomId'';
            userId = js_prop payload ''userId'';
            allow = js_prop payload ''allow''
        in if \<not> truthy roomId \<or> \<not> truthy userId then Inr (d, s, [])
           else
             let s1 = upsertParticipant s roomId socket
                        \<lparr>p_userId = Some userId, p_displayName = None,
                         p_streamAllowed = Some (truthy allow)\<rparr> now
             in case listAdmins s1 roomId of
                  (admins, s2) \<Rightarrow>
                    let acts = [Emit (ToSocket socket) ''admin:list'' (AdminList roomId admins)]
                    in case broadcastAdminUpdate s2 roomId of
                         Inl (e, s3, upd) \<Rightarrow> Inl (e, d, s3, acts @ upd)
                       | Inr (s3, upd) \<Rightarrow>
                           (case template ''admin:'' roomId of
                              Inl e \<Rightarrow> Inl (e, d, s3, acts @ upd)
                            | Inr g \<Rightarrow>
                                Inr (d, s3,
                                     acts @ upd
                                     @ [Emit (To (JStr g)) ''participant:streamAllowed''
                                          (StreamAllowed socket userId (truthy allow))])))"

definition on_admin_subscribe :: "sid \<Rightarrow> jsval \<Rightarrow> conn_data \<Rightarrow> store \<Rightarrow> result" where
  "on_admin_subscribe socket payload d s =
     (if nullish payload then Inl (TypeError, d, s, [])
      else
        let roomId = js_prop payload ''roomId''
        in if \<not> truthy roomId then Inr (d, s, [])
           else
             let d1 = d\<lparr>d_role := Some Admin, d_roomId := roomId\<rparr>;
                 s1 = ensureRoom s roomId;
                 s2 = (case roomAdmins s1 roomId of
                         None \<Rightarrow> s1
                       | Some admins \<Rightarrow>
                           s1\<lparr>roomAdmins := (roomAdmins s1)(roomId \<mapsto> set_add socket admins)\<rparr>)
             in case template ''admin:'' roomId of
                  Inl e \<Rightarrow> Inl (e, d1, s2, [])
                | Inr g \<Rightarrow>
                    (case listStreamEnabledParticipants s2 roomId of
                       (lst, s3) \<Rightarrow>
                         let acts = [SocketJoin g,
                                     Emit (ToSocket socket) ''room:update'' (RoomUpdate lst)]
                         in case template ''room:'' roomId of
                              Inl e \<Rightarrow> Inl (e, d1, s3, acts)
                            | Inr h \<Rightarrow>
                                Inr (d1, s3,
                                     acts @ [Emit (To (JStr h)) ''admin:online''
                                               (AdminOnline socket)])))"

definition on_webrtc_offer :: "sid \<Rightarrow> jsval \<Rightarrow> conn_data \<Rightarrow> store \<Rightarrow> result" where
  "on_webrtc_offer socket payload d s =
     (if nullish payload then Inl (TypeError, d, s, [])
      else Inr (d, s, [Emit (To (js_prop payload ''to'')) ''webrtc:offer''
                         (Sdp socket (js_prop payload ''sdp''))]))"

definition on_webrtc_answer :: "sid \<Rightarrow> jsval \<Rightarrow> conn_data \<Rightarrow> store \<Rightarrow> result" where
  "on_webrtc_answer socket payload d s =
     (if nullish payload then Inl (TypeError, d, s, [])
      else Inr (d, s, [Emit (To (js_prop payload ''to'')) ''webrtc:answer''
                         (Sdp socket (js_prop payload ''sdp''))]))"

definition on_webrtc_ice :: "sid \<Rightarrow> jsval \<Rightarrow> conn_data \<Rightarrow> store \<Rightarrow> result" where
  "on_webrtc_ice socket payload d s =
     (if nullish payload then Inl (TypeError, d, s, [])
      else Inr (d, s, [Emit (To (js_prop payload ''to'')) ''webrtc:ice''
                         (Candidate socket (js_prop payload ''candidate''))]))"

definition on_disconnect :: "sid \<Rightarrow> conn_data \<Rightarrow> store \<Rightarrow> result" where
  "on_disconnect socket d s =
     (let roomId = d_roomId d
      in if \<not> truthy roomId then Inr (d, s, [])
         else
           case (if d_role d = Some Admin
                 then (let s1 = ensureRoom s roomId;
                           s2 = (case roomAdmins s1 roomId of
                                   None \<Rightarrow> s1
                                 | Some admins \<Rightarrow>
                                     s1\<lparr>roomAdmins :=
                                          (roomAdmins s1)(roomId \<mapsto> set_delete socket admins)\<rparr>)
                       in case template ''room:'' roomId of
                            Inl e \<Rightarrow> Inl (e, s2, [])
                          | Inr g \<Rightarrow>
                              Inr (s2, [Emit (To (JStr g)) ''admin:offline''
                                          (AdminOffline socket)]))
                 else Inr (s, [])) of
             Inl (e, s2, off) \<Rightarrow> Inl (e, d, s2, off)
           | Inr (s2, off) \<Rightarrow>
               let s3 = (if d_role d = Some Participant
                         then removeParticipant s2 roomId socket else s2)
               in case broadcastAdminUpdate s3 roomId of
                    Inl (e, s4, upd) \<Rightarrow> Inl (e, d, s4, off @ upd)
                  | Inr (s4, upd) \<Rightarrow> Inr (d, s4, off @ upd))"

section \<open>The server: one event at a time\<close>

text \<open>
  The events a connection can deliver, each with the first argument the client sent
  (\<open>undefined\<close> when it sent none). \<open>ping\<close> and \<open>disconnect\<close> read no argument.
\<close>

datatype event =
    Join jsval
  | Ping
  | StreamConsent jsval
  | AdminSubscribe jsval
  | WebrtcOffer jsval
  | WebrtcAnswer jsval
  | WebrtcIce jsval
  | Disconnect

fun handle :: "sid \<Rightarrow> int \<Rightarrow> event \<Rightarrow> conn_data \<Rightarrow> store \<Rightarrow> result" where
  "handle socket now (Join payload) d s = on_join socket now payload d s"
| "handle socket now Ping d s = on_ping socket now d s"
| "handle socket now (StreamConsent payload) d s = on_stream_consent socket now payload d s"
| "handle socket now (AdminSubscribe payload) d s = on_admin_subscribe socket payload d s"
| "handle socket now (WebrtcOffer payload) d s = on_webrtc_offer socket payload d s"
| "handle socket now (WebrtcAnswer payload) d s = on_webrtc_answer socket payload d s"
| "handle socket now (WebrtcIce payload) d s = on_webrtc_ice socket payload d s"
| "handle socket now Disconnect d s = on_disconnect socket d s"

text \<open>
  The state of the process: the store and the \<open>socket.data\<close> of every connection. An
  occurrence is the connection an event arrives on, the value \<open>Date.now()\<close> has while it
  is handled, and the event. The source catches no exception: a handler that throws ends
  the run, with the error, the state the handler left and the sends made until then.
\<close>

record server =
  store :: store
  sockets :: "sid \<Rightarrow> conn_data"

definition init :: server where
  "init = \<lparr>store = empty_store, sockets = (\<lambda>c. fresh)\<rparr>"

type_synonym occurrence = "sid \<times> int \<times> event"

type_synonym outcome = "(js_error \<times> server \<times> action list) + (server \<times> action list)"

definition step :: "server \<Rightarrow> occurrence \<Rightarrow> outcome" where
  "step st oc =
     (case oc of (socket, now, ev) \<Rightarrow>
        (case handle socket now ev (sockets st socket) (store st) of
           Inl (e, d, s, acts) \<Rightarrow>
             Inl (e, \<lparr>store = s, sockets = (sockets st)(socket := d)\<rparr>, acts)
         | Inr (d, s, acts) \<Rightarrow> Inr (\<lparr>store = s, sockets = (sockets st)(socket := d)\<rparr>, acts)))"

fun run :: "server \<Rightarrow> occurrence list \<Rightarrow> outcome" where
  "run st [] = Inr (st, [])"
| "run st (oc # ocs) =
     (case step st oc of
        Inl x \<Rightarrow> Inl x
      | Inr (st1, acts1) \<Rightarrow>
          (case run st1 ocs of
             Inl (e, st2, acts2) \<Rightarrow> Inl (e, st2, acts1 @ acts2)
           | Inr (st2, acts2) \<Rightarrow> Inr (st2, acts1 @ acts2)))"

section \<open>Views of the state, for the statements below\<close>

text \<open>The participant map and the admin set of a room, empty when the room is absent.\<close>

definition room_of :: "store \<Rightarrow> jsval \<Rightarrow> (sid \<times> participant) list" where
  "room_of s r = (case rooms s r of None \<Rightarrow> [] | Some room \<Rightarrow> room)"

definition admins_of :: "store \<Rightarrow> jsval \<Rightarrow> sid list" where
  "admins_of s r = (case roomAdmins s r of None \<Rightarrow> [] | Some admins \<Rightarrow> admins)"

text \<open>
  The store after \<open>admin:subscribe\<close> of connection \<open>c\<close> to room \<open>r\<close>: \<open>ensureRoom\<close>, then
  \<open>roomAdmins.get(r).add(c)\<close>.
\<close>

definition subscribed :: "store \<Rightarrow> jsval \<Rightarrow> sid \<Rightarrow> store" where
  "subscribed s r c =
     (ensureRoom s r)\<lparr>roomAdmins := (roomAdmins (ensureRoom s r))(r \<mapsto> set_add c (admins_of s r))\<rparr>"

text \<open>
  The specification's words for the derived view: a participant is shown when its
  \<open>streamAllowed\<close> is \<open>true\<close>, and it is shown as its connection id with its \<open>userId\<close>,
  \<open>displayName\<close> and \<open>lastSeen\<close>. The source's \<open>render\<close> is compared with these two.
\<close>

definition consenting :: "sid \<times> participant \<Rightarrow> bool" where
  "consenting sp = (streamAllowed (snd sp) = Some True)"

definition entry_of :: "sid \<times> participant \<Rightarrow> entry" where
  "entry_of sp = \<lparr>e_socketId = fst sp, e_userId = field (userId (snd sp)),
                  e_displayName = field (displayName (snd sp)), e_lastSeen = lastSeen (snd sp)\<rparr>"

text \<open>
  The store after the admin branch of \<open>disconnect\<close> for connection \<open>c\<close> whose room is \<open>r\<close>:
  \<open>ensureRoom\<close>, then \<open>roomAdmins.get(r).delete(c)\<close>.
\<close>

definition unsubscribed :: "store \<Rightarrow> jsval \<Rightarrow> sid \<Rightarrow> store" where
  "unsubscribed s r c =
     (ensureRoom s r)\<lparr>roomAdmins := (roomAdmins (ensureRoom s r))(r \<mapsto> set_delete c (admins_of s r))\<rparr>"

text \<open>
  A value converts when its conversion to a string does not throw; \<open>str_of\<close> is the string
  it converts to.
\<close>

definition convertible :: "jsval \<Rightarrow> bool" where
  "convertible v = (case to_string v of Inl e \<Rightarrow> False | Inr a \<Rightarrow> True)"

definition str_of :: "jsval \<Rightarrow> string" where
  "str_of v = (case to_string v of Inl e \<Rightarrow> [] | Inr a \<Rightarrow> a)"

text \<open>
  When a handler throws (lemma \<open>handle_throws\<close> below): its argument is \<open>undefined\<close> or
  \<open>null\<close>, or the room id it gets past its guard with does not convert. An event is well
  formed when it carries an argument and the room id in it converts; such an event does not
  throw where the room ids in \<open>socket.data\<close> convert.
\<close>

fun throws :: "conn_data \<Rightarrow> event \<Rightarrow> bool" where
  "throws d (Join p) =
     (nullish p \<or> (truthy (js_prop p ''roomId'') \<and> truthy (js_prop p ''userId'')
                   \<and> \<not> convertible (js_prop p ''roomId'')))"
| "throws d Ping = (truthy (d_roomId d) \<and> \<not> convertible (d_roomId d))"
| "throws d (StreamConsent p) =
     (nullish p \<or> (truthy (js_prop p ''roomId'') \<and> truthy (js_prop p ''userId'')
                   \<and> \<not> convertible (js_prop p ''roomId'')))"
| "throws d (AdminSubscribe p) =
     (nullish p \<or> (truthy (js_prop p ''roomId'') \<and> \<not> convertible (js_prop p ''roomId'')))"
| "throws d (WebrtcOffer p) = nullish p"
| "throws d (WebrtcAnswer p) = nullish p"
| "throws d (WebrtcIce p) = nullish p"
| "throws d Disconnect = (truthy (d_roomId d) \<and> \<not> convertible (d_roomId d))"

fun well_formed :: "event \<Rightarrow> bool" where
  "well_formed (Join p) = (\<not> nullish p \<and> convertible (js_prop p ''roomId''))"
| "well_formed Ping = True"
| "well_formed (StreamConsent p) = (\<not> nullish p \<and> convertible (js_prop p ''roomId''))"
| "well_formed (AdminSubscribe p) = (\<not> nullish p \<and> convertible (js_prop p ''roomId''))"
| "well_formed (WebrtcOffer p) = (\<not> nullish p)"
| "well_formed (WebrtcAnswer p) = (\<not> nullish p)"
| "well_formed (WebrtcIce p) = (\<not> nullish p)"
| "well_formed Disconnect = True"

text \<open>
  \<open>join\<close> and \<open>admin:subscribe\<close> are the events whose handlers write \<open>socket.data\<close>; they
  and \<open>stream:consent\<close> are the events that name a room.
\<close>

fun writes_data :: "event \<Rightarrow> bool" where
  "writes_data (Join p) = True"
| "writes_data (AdminSubscribe p) = True"
| "writes_data ev = False"

fun names_room :: "event \<Rightarrow> bool" where
  "names_room (Join p) = True"
| "names_room (StreamConsent p) = True"
| "names_room (AdminSubscribe p) = True"
| "names_room ev = False"

text \<open>
  Two properties of the states a run reaches from the empty server: the room id in every
  \<open>socket.data\<close> converts, and the room it names is in both maps of the store.
\<close>

definition labels_convert :: "server \<Rightarrow> bool" where
  "labels_convert st = (\<forall>c. convertible (d_roomId (sockets st c)))"

definition labels_present :: "server \<Rightarrow> bool" where
  "labels_present st =
     (\<forall>c. truthy (d_roomId (sockets st c)) \<longrightarrow>
          rooms (store st) (d_roomId (sockets st c)) \<noteq> None
          \<and> roomAdmins (store st) (d_roomId (sockets st c)) \<noteq> None)"

text \<open>A room with five participants and a store that holds it, for concrete evaluations.\<close>

definition ex_room :: "(sid \<times> participant) list" where
  "ex_room =
     [(''A'', \<lparr>userId = Some (JStr ''u1''), displayName = Some (JStr ''Ann''),
               streamAllowed = Some True, lastSeen = 10\<rparr>),
      (''B'', \<lparr>userId = Some (JStr ''u2''), displayName = Some (JStr ''Bob''),
               streamAllowed = None, lastSeen = 40\<rparr>),
      (''C'', \<lparr>userId = Some (JStr ''u3''), displayName = None,
               streamAllowed = Some True, lastSeen = 30\<rparr>),
      (''D'', \<lparr>userId = Some (JStr ''u4''), displayName = Some (JStr ''Dan''),
               streamAllowed = Some False, lastSeen = 50\<rparr>),
      (''E'', \<lparr>userId = Some (JStr ''u5''), displayName = Some (JStr ''Eve''),
               streamAllowed = Some True, lastSeen = 30\<rparr>)]"

definition ex_store :: store where
  "ex_store = \<lparr>rooms = (\<lambda>r. None)(JStr ''r1'' \<mapsto> ex_room),
               roomAdmins = (\<lambda>r. None)(JStr ''r1'' \<mapsto> [''X''])\<rparr>"

text \<open>
  Payloads as a client sends them: \<open>{roomId, userId}\<close>, \<open>{roomId, userId, allow}\<close>,
  \<open>{roomId}\<close> and \<open>{to, sdp}\<close>.
\<close>

definition ex_join :: "string \<Rightarrow> string \<Rightarrow> jsval" where
  "ex_join r u = JObj 1 [(''roomId'', JStr r), (''userId'', JStr u)]"

definition ex_consent :: "string \<Rightarrow> string \<Rightarrow> bool \<Rightarrow> jsval" where
  "ex_consent r u b = JObj 2 [(''roomId'', JStr r), (''userId'', JStr u), (''allow'', JBool b)]"

definition ex_subscribe :: "string \<Rightarrow> jsval" where
  "ex_subscribe r = JObj 3 [(''roomId'', JStr r)]"

definition ex_offer :: jsval where
  "ex_offer = JObj 4 [(''to'', JStr ''B''), (''sdp'', JObj 5 [(''type'', JStr ''offer'')])]"

text \<open>A room id that is truthy and does not convert to a string: \<open>{toString: 1}\<close>.\<close>

definition ex_bad_room :: jsval where
  "ex_bad_room = JObj 9 [(''toString'', JNum 1)]"

text \<open>
  What is left when a step has thrown: the error, the sends, and of the state the role of
  connection \<open>c\<close>, the participants of room \<open>r\<close> and its admins.
\<close>

definition thrown :: "outcome \<Rightarrow> sid \<Rightarrow> jsval \<Rightarrow>
    (js_error \<times> action list \<times> role option \<times> (sid \<times> participant) list \<times> sid list) option" where
  "thrown res c r =
     (case res of
        Inl (e, st, acts) \<Rightarrow>
          Some (e, acts, d_role (sockets st c), room_of (store st) r, admins_of (store st) r)
      | Inr x \<Rightarrow> None)"

text \<open>Sequences of events for concrete evaluations, and the sends of a run that did not throw.\<close>

definition ex_trace :: "occurrence list" where
  "ex_trace = [(''X'', 2, Join (ex_join ''r1'' ''u1'')),
               (''Y'', 3, AdminSubscribe (ex_subscribe ''r1'')),
               (''Y'', 4, Disconnect),
               (''X'', 5, Ping)]"

definition ex_later :: "occurrence list" where
  "ex_later = [(''A'', 2, Ping),
               (''A'', 3, Disconnect),
               (''B'', 4, Join (ex_join ''r2'' ''u2''))]"

definition ex_ghost_subscribe :: "occurrence list" where
  "ex_ghost_subscribe =
     [(''A'', 1, Join (ex_join ''r1'' ''u1'')),
      (''A'', 2, StreamConsent (ex_consent ''r1'' ''u1'' True)),
      (''A'', 3, AdminSubscribe (ex_subscribe ''r1'')),
      (''A'', 4, Disconnect),
      (''B'', 5, Join (ex_join ''r1'' ''u2''))]"

definition ex_ghost_consent :: "occurrence list" where
  "ex_ghost_consent =
     [(''A'', 1, Join (ex_join ''r1'' ''u1'')),
      (''A'', 2, StreamConsent (ex_consent ''r2'' ''u1'' True)),
      (''A'', 3, Disconnect),
      (''B'', 4, Join (ex_join ''r2'' ''u2''))]"

definition emitted :: "outcome \<Rightarrow> action list option" where
  "emitted res = (case res of Inl e \<Rightarrow> None | Inr (st, acts) \<Rightarrow> Some acts)"

section \<open>Lemmas\<close>

subsection \<open>Map and Set\<close>

lemma map_get_map_set: "map_get (map_set k v m) k' = (if k' = k then Some v else map_get m k')"
  by (induction m) (auto simp: map_get_def)

lemma keys_map_set:
  "map fst (map_set k v m) = (if k \<in> fst ` set m then map fst m else map fst m @ [k])"
  by (induction m) auto

lemma map_set_twice: "map_set k v2 (map_set k v1 m) = map_set k v2 m"
  by (induction m) auto

lemma map_get_map_delete:
  "map_get (map_delete k m) k' = (if k' = k then None else map_get m k')"
  by (induction m) (auto simp: map_get_def map_delete_def)

lemma keys_map_delete: "fst ` set (map_delete k m) = fst ` set m - {k}"
  by (auto simp: map_delete_def)

lemma map_get_None_iff: "map_get m k = None \<longleftrightarrow> k \<notin> fst ` set m"
  by (simp add: map_get_def map_of_eq_None_iff)

lemma set_set_add: "set (set_add x xs) = insert x (set xs)"
  by (auto simp: set_add_def)

lemma set_set_delete: "set (set_delete x xs) = set xs - {x}"
  by (auto simp: set_delete_def)

subsection \<open>sort\<close>

lemma or0_id: "or0 x = x"
  by (simp add: or0_def)

lemma insert_by_cmp_lastSeen:
  "insert_by cmp_lastSeen x ys = insort_key (\<lambda>e. - e_lastSeen e) x ys"
  by (induction ys) (auto simp: cmp_lastSeen_def or0_id)

lemma js_sort_cmp_lastSeen: "js_sort cmp_lastSeen xs = sort_key (\<lambda>e. - e_lastSeen e) xs"
  by (induction xs) (auto simp: js_sort_def sort_key_def insert_by_cmp_lastSeen)

subsection \<open>store ops\<close>

lemma rooms_ensureRoom:
  "rooms (ensureRoom s r) = (if rooms s r = None then (rooms s)(r \<mapsto> []) else rooms s)"
  by (auto simp: ensureRoom_def Let_def)

lemma roomAdmins_ensureRoom:
  "roomAdmins (ensureRoom s r) =
     (if roomAdmins s r = None then (roomAdmins s)(r \<mapsto> []) else roomAdmins s)"
  by (auto simp: ensureRoom_def Let_def)

lemma ensureRoom_rooms: "rooms (ensureRoom s r) r \<noteq> None"
  by (simp add: rooms_ensureRoom)

lemma ensureRoom_roomAdmins: "roomAdmins (ensureRoom s r) r \<noteq> None"
  by (simp add: roomAdmins_ensureRoom)

lemma room_of_ensureRoom: "room_of (ensureRoom s r) r' = room_of s r'"
  by (simp add: room_of_def rooms_ensureRoom)

lemma admins_of_ensureRoom: "admins_of (ensureRoom s r) r' = admins_of s r'"
  by (simp add: admins_of_def roomAdmins_ensureRoom)

lemma ensureRoom_idem: "ensureRoom (ensureRoom s r) r = ensureRoom s r"
  by (simp add: ensureRoom_def Let_def)

lemma ensureRoom_present:
  "rooms s r \<noteq> None \<Longrightarrow> roomAdmins s r \<noteq> None \<Longrightarrow> ensureRoom s r = s"
  by (auto simp: ensureRoom_def Let_def)

lemma rooms_upsertParticipant:
  "rooms (upsertParticipant s r c pt now) =
     (rooms s)(r \<mapsto> map_set c (spread (map_get (room_of s r) c) pt now) (room_of s r))"
  by (auto simp: upsertParticipant_def Let_def rooms_ensureRoom room_of_def split: option.splits)

lemma roomAdmins_upsertParticipant:
  "roomAdmins (upsertParticipant s r c pt now) = roomAdmins (ensureRoom s r)"
  by (auto simp: upsertParticipant_def Let_def split: option.splits)

lemma ensureRoom_upsertParticipant:
  "ensureRoom (upsertParticipant s r c pt now) r = upsertParticipant s r c pt now"
  by (rule ensureRoom_present)
     (simp_all add: rooms_upsertParticipant roomAdmins_upsertParticipant ensureRoom_roomAdmins)

lemma upsertParticipant_ensureRoom:
  "upsertParticipant (ensureRoom s r) r c pt now = upsertParticipant s r c pt now"
  by (simp add: upsertParticipant_def ensureRoom_idem)

lemma listAdmins_eq: "listAdmins s r = (admins_of s r, ensureRoom s r)"
  by (simp add: listAdmins_def Let_def admins_of_def roomAdmins_ensureRoom split: option.splits)

lemma listStreamEnabledParticipants_eq:
  "listStreamEnabledParticipants s r =
     (js_sort cmp_lastSeen (List.map_filter render (room_of s r)), ensureRoom s r)"
  by (simp add: listStreamEnabledParticipants_def Let_def room_of_def rooms_ensureRoom
        split: option.splits)


subsection \<open>effects on the two views\<close>

lemma admins_of_upsertParticipant: "admins_of (upsertParticipant s r c pt now) r' = admins_of s r'"
  by (simp add: admins_of_def roomAdmins_upsertParticipant roomAdmins_ensureRoom)

lemma room_of_upsertParticipant:
  "room_of (upsertParticipant s r c pt now) r' =
     (if r' = r then map_set c (spread (map_get (room_of s r) c) pt now) (room_of s r)
      else room_of s r')"
  by (simp add: room_of_def rooms_upsertParticipant)

lemma room_of_removeParticipant:
  "room_of (removeParticipant s r c) r' =
     (if r' = r then map_delete c (room_of s r) else room_of s r')"
  by (simp add: room_of_def removeParticipant_def map_delete_def split: option.splits)

lemma admins_of_removeParticipant: "admins_of (removeParticipant s r c) r' = admins_of s r'"
  by (simp add: admins_of_def removeParticipant_def split: option.splits)


lemma room_of_subscribed: "room_of (subscribed s r c) r' = room_of s r'"
  by (simp add: subscribed_def room_of_def rooms_ensureRoom)

lemma admins_of_subscribed:
  "admins_of (subscribed s r c) r' = (if r' = r then set_add c (admins_of s r) else admins_of s r')"
  by (simp add: subscribed_def admins_of_def roomAdmins_ensureRoom)

lemma ensureRoom_subscribed: "ensureRoom (subscribed s r c) r = subscribed s r c"
  by (rule ensureRoom_present) (simp_all add: subscribed_def rooms_ensureRoom)


lemma map_filter_render: "List.map_filter render m = map entry_of (filter consenting m)"
  by (induction m)
     (auto simp: List.map_filter_simps render_def entry_of_def consenting_def split: prod.splits)

lemma visible_eq:
  "fst (listStreamEnabledParticipants s r) =
     sort_key (\<lambda>e. - e_lastSeen e) (map entry_of (filter consenting (room_of s r)))"
  by (simp add: listStreamEnabledParticipants_eq js_sort_cmp_lastSeen map_filter_render)

lemma room_of_admins_update: "room_of (s\<lparr>roomAdmins := A\<rparr>) r = room_of s r"
  by (simp add: room_of_def)

lemma consenting_ids:
  assumes "distinct (map fst m)"
  shows "e_socketId ` entry_of ` {sp \<in> set m. consenting sp}
           = {c. \<exists>p. map_get m c = Some p \<and> streamAllowed p = Some True}"
  using assms
  by (force simp: map_get_def entry_of_def consenting_def image_iff)


lemma room_of_unsubscribed: "room_of (unsubscribed s r c) r' = room_of s r'"
  by (simp add: unsubscribed_def room_of_def rooms_ensureRoom)

lemma admins_of_unsubscribed:
  "admins_of (unsubscribed s r c) r' =
     (if r' = r then set_delete c (admins_of s r) else admins_of s r')"
  by (simp add: unsubscribed_def admins_of_def roomAdmins_ensureRoom)

lemma ensureRoom_unsubscribed: "ensureRoom (unsubscribed s r c) r = unsubscribed s r c"
  by (rule ensureRoom_present) (simp_all add: unsubscribed_def rooms_ensureRoom)


subsection \<open>conversion to a string\<close>

lemma js_error_TypeError: "(e :: js_error) = TypeError"
  by (cases e) simp

lemma convertible_to_string: "convertible v \<Longrightarrow> to_string v = Inr (str_of v)"
  by (simp add: convertible_def str_of_def split: sum.splits)

lemma not_convertible_to_string: "\<not> convertible v \<Longrightarrow> to_string v = Inl TypeError"
  by (simp add: convertible_def js_error_TypeError split: sum.splits)

lemma template_convertible: "convertible v \<Longrightarrow> template p v = Inr (p @ str_of v)"
  by (simp add: template_def convertible_to_string)

lemma template_throws: "\<not> convertible v \<Longrightarrow> template p v = Inl TypeError"
  by (simp add: template_def not_convertible_to_string)

lemma convertible_primitive:
  "convertible JUndefined" "convertible JNull" "convertible (JBool b)" "convertible (JNum n)"
  "convertible (JStr a)"
  by (simp_all add: convertible_def)

lemma str_of_JStr: "str_of (JStr a) = a"
  by (simp add: str_of_def)

lemma broadcastAdminUpdate_eq:
  "convertible r \<Longrightarrow>
   broadcastAdminUpdate s r =
     Inr (ensureRoom s r,
          [Emit (To (JStr (''admin:'' @ str_of r))) ''room:update''
             (RoomUpdate (fst (listStreamEnabledParticipants s r)))])"
  by (simp add: broadcastAdminUpdate_def template_convertible listStreamEnabledParticipants_eq)

lemma broadcastAdminUpdate_throws:
  "\<not> convertible r \<Longrightarrow> broadcastAdminUpdate s r = Inl (TypeError, s, [])"
  by (simp add: broadcastAdminUpdate_def template_throws)

lemmas store_eqs = listAdmins_eq listStreamEnabledParticipants_eq broadcastAdminUpdate_eq
  template_convertible
  upsertParticipant_ensureRoom ensureRoom_upsertParticipant ensureRoom_idem
  admins_of_ensureRoom room_of_ensureRoom

subsection \<open>what each handler does\<close>

lemma on_join_valid:
  assumes "\<not> nullish p" and "truthy (js_prop p ''roomId'')" and "truthy (js_prop p ''userId'')"
    and "convertible (js_prop p ''roomId'')"
  shows "on_join c now p d s =
    Inr (d\<lparr>d_role := Some Participant, d_roomId := js_prop p ''roomId'',
            d_userId := js_prop p ''userId''\<rparr>,
         upsertParticipant s (js_prop p ''roomId'') c
           \<lparr>p_userId = Some (js_prop p ''userId''),
            p_displayName = Some (js_or (js_prop p ''displayName'') (js_prop p ''userId'')),
            p_streamAllowed = None\<rparr> now,
         [SocketJoin (''room:'' @ str_of (js_prop p ''roomId'')),
          Emit (ToSocket c) ''admin:list''
            (AdminList (js_prop p ''roomId'') (admins_of s (js_prop p ''roomId''))),
          Emit (To (JStr (''admin:'' @ str_of (js_prop p ''roomId'')))) ''room:update''
            (RoomUpdate (fst (listStreamEnabledParticipants
               (upsertParticipant s (js_prop p ''roomId'') c
                  \<lparr>p_userId = Some (js_prop p ''userId''),
                   p_displayName = Some (js_or (js_prop p ''displayName'') (js_prop p ''userId'')),
                   p_streamAllowed = None\<rparr> now) (js_prop p ''roomId''))))])"
  using assms
  by (simp add: on_join_def Let_def store_eqs admins_of_upsertParticipant)

lemma on_join_throws_late:
  assumes "\<not> nullish p" and "truthy (js_prop p ''roomId'')" and "truthy (js_prop p ''userId'')"
    and "\<not> convertible (js_prop p ''roomId'')"
  shows "on_join c now p d s =
    Inl (TypeError,
         d\<lparr>d_role := Some Participant, d_roomId := js_prop p ''roomId'',
           d_userId := js_prop p ''userId''\<rparr>,
         ensureRoom s (js_prop p ''roomId''), [])"
  using assms by (simp add: on_join_def Let_def template_throws)

lemma on_join_invalid:
  assumes "\<not> nullish p" and "\<not> truthy (js_prop p ''roomId'') \<or> \<not> truthy (js_prop p ''userId'')"
  shows "on_join c now p d s = Inr (d, s, [])"
  using assms by (auto simp: on_join_def Let_def)

lemma on_stream_consent_valid:
  assumes "\<not> nullish p" and "truthy (js_prop p ''roomId'')" and "truthy (js_prop p ''userId'')"
    and "convertible (js_prop p ''roomId'')"
  shows "on_stream_consent c now p d s =
    Inr (d,
         upsertParticipant s (js_prop p ''roomId'') c
           \<lparr>p_userId = Some (js_prop p ''userId''), p_displayName = None,
            p_streamAllowed = Some (truthy (js_prop p ''allow''))\<rparr> now,
         [Emit (ToSocket c) ''admin:list''
            (AdminList (js_prop p ''roomId'') (admins_of s (js_prop p ''roomId''))),
          Emit (To (JStr (''admin:'' @ str_of (js_prop p ''roomId'')))) ''room:update''
            (RoomUpdate (fst (listStreamEnabledParticipants
               (upsertParticipant s (js_prop p ''roomId'') c
                  \<lparr>p_userId = Some (js_prop p ''userId''), p_displayName = None,
                   p_streamAllowed = Some (truthy (js_prop p ''allow''))\<rparr> now)
               (js_prop p ''roomId'')))),
          Emit (To (JStr (''admin:'' @ str_of (js_prop p ''roomId''))))
            ''participant:streamAllowed''
            (StreamAllowed c (js_prop p ''userId'') (truthy (js_prop p ''allow'')))])"
  using assms
  by (simp add: on_stream_consent_def Let_def store_eqs admins_of_upsertParticipant)

lemma on_stream_consent_throws_late:
  assumes "\<not> nullish p" and "truthy (js_prop p ''roomId'')" and "truthy (js_prop p ''userId'')"
    and "\<not> convertible (js_prop p ''roomId'')"
  shows "on_stream_consent c now p d s =
    Inl (TypeError, d,
         upsertParticipant s (js_prop p ''roomId'') c
           \<lparr>p_userId = Some (js_prop p ''userId''), p_displayName = None,
            p_streamAllowed = Some (truthy (js_prop p ''allow''))\<rparr> now,
         [Emit (ToSocket c) ''admin:list''
            (AdminList (js_prop p ''roomId'') (admins_of s (js_prop p ''roomId'')))])"
  using assms
  by (simp add: on_stream_consent_def Let_def listAdmins_eq broadcastAdminUpdate_throws
        ensureRoom_upsertParticipant admins_of_upsertParticipant)

lemma on_stream_consent_invalid:
  assumes "\<not> nullish p" and "\<not> truthy (js_prop p ''roomId'') \<or> \<not> truthy (js_prop p ''userId'')"
  shows "on_stream_consent c now p d s = Inr (d, s, [])"
  using assms by (auto simp: on_stream_consent_def Let_def)

lemma on_ping_room:
  assumes "truthy (d_roomId d)" and "convertible (d_roomId d)"
  shows "on_ping c now d s =
    Inr (d,
         upsertParticipant s (d_roomId d) c
           \<lparr>p_userId = None, p_displayName = None, p_streamAllowed = None\<rparr> now,
         [Emit (To (JStr (''admin:'' @ str_of (d_roomId d)))) ''room:update''
            (RoomUpdate (fst (listStreamEnabledParticipants
               (upsertParticipant s (d_roomId d) c
                  \<lparr>p_userId = None, p_displayName = None, p_streamAllowed = None\<rparr> now)
               (d_roomId d))))])"
  using assms by (simp add: on_ping_def Let_def store_eqs)

lemma on_ping_throws:
  assumes "truthy (d_roomId d)" and "\<not> convertible (d_roomId d)"
  shows "on_ping c now d s =
    Inl (TypeError, d,
         upsertParticipant s (d_roomId d) c
           \<lparr>p_userId = None, p_displayName = None, p_streamAllowed = None\<rparr> now, [])"
  using assms by (simp add: on_ping_def Let_def broadcastAdminUpdate_throws)

lemma on_ping_no_room: "\<not> truthy (d_roomId d) \<Longrightarrow> on_ping c now d s = Inr (d, s, [])"
  by (simp add: on_ping_def Let_def)

lemma subscribed_eq:
  "(case roomAdmins (ensureRoom s r) r of
      None \<Rightarrow> ensureRoom s r
    | Some admins \<Rightarrow>
        (ensureRoom s r)\<lparr>roomAdmins := (roomAdmins (ensureRoom s r))(r \<mapsto> set_add c admins)\<rparr>)
   = subscribed s r c"
  by (simp add: subscribed_def roomAdmins_ensureRoom admins_of_def split: option.splits)

lemma unsubscribed_eq:
  "(case roomAdmins (ensureRoom s r) r of
      None \<Rightarrow> ensureRoom s r
    | Some admins \<Rightarrow>
        (ensureRoom s r)\<lparr>roomAdmins := (roomAdmins (ensureRoom s r))(r \<mapsto> set_delete c admins)\<rparr>)
   = unsubscribed s r c"
  by (simp add: unsubscribed_def roomAdmins_ensureRoom admins_of_def split: option.splits)

lemma on_admin_subscribe_valid:
  assumes "\<not> nullish p" and "truthy (js_prop p ''roomId'')"
    and "convertible (js_prop p ''roomId'')"
  shows "on_admin_subscribe c p d s =
    Inr (d\<lparr>d_role := Some Admin, d_roomId := js_prop p ''roomId''\<rparr>,
         subscribed s (js_prop p ''roomId'') c,
         [SocketJoin (''admin:'' @ str_of (js_prop p ''roomId'')),
          Emit (ToSocket c) ''room:update''
            (RoomUpdate (fst (listStreamEnabledParticipants s (js_prop p ''roomId'')))),
          Emit (To (JStr (''room:'' @ str_of (js_prop p ''roomId'')))) ''admin:online''
            (AdminOnline c)])"
  using assms
  by (simp add: on_admin_subscribe_def Let_def subscribed_eq store_eqs ensureRoom_subscribed
        room_of_subscribed)

lemma on_admin_subscribe_throws_late:
  assumes "\<not> nullish p" and "truthy (js_prop p ''roomId'')"
    and "\<not> convertible (js_prop p ''roomId'')"
  shows "on_admin_subscribe c p d s =
    Inl (TypeError, d\<lparr>d_role := Some Admin, d_roomId := js_prop p ''roomId''\<rparr>,
         subscribed s (js_prop p ''roomId'') c, [])"
  using assms
  by (simp add: on_admin_subscribe_def Let_def subscribed_eq template_throws)

lemma on_admin_subscribe_invalid:
  assumes "\<not> nullish p" and "\<not> truthy (js_prop p ''roomId'')"
  shows "on_admin_subscribe c p d s = Inr (d, s, [])"
  using assms by (auto simp: on_admin_subscribe_def Let_def)

lemma on_disconnect_no_room:
  "\<not> truthy (d_roomId d) \<Longrightarrow> on_disconnect c d s = Inr (d, s, [])"
  by (simp add: on_disconnect_def Let_def)

lemma on_disconnect_admin:
  assumes "truthy (d_roomId d)" and "d_role d = Some Admin" and "convertible (d_roomId d)"
  shows "on_disconnect c d s =
    Inr (d, unsubscribed s (d_roomId d) c,
         [Emit (To (JStr (''room:'' @ str_of (d_roomId d)))) ''admin:offline'' (AdminOffline c),
          Emit (To (JStr (''admin:'' @ str_of (d_roomId d)))) ''room:update''
            (RoomUpdate (fst (listStreamEnabledParticipants s (d_roomId d))))])"
  using assms
  by (simp add: on_disconnect_def Let_def unsubscribed_eq store_eqs ensureRoom_unsubscribed
        room_of_unsubscribed)

lemma on_disconnect_participant:
  assumes "truthy (d_roomId d)" and "d_role d = Some Participant" and "convertible (d_roomId d)"
  shows "on_disconnect c d s =
    Inr (d, ensureRoom (removeParticipant s (d_roomId d) c) (d_roomId d),
         [Emit (To (JStr (''admin:'' @ str_of (d_roomId d)))) ''room:update''
            (RoomUpdate (fst (listStreamEnabledParticipants
               (removeParticipant s (d_roomId d) c) (d_roomId d))))])"
  using assms by (simp add: on_disconnect_def Let_def store_eqs)

lemma on_disconnect_unset:
  assumes "truthy (d_roomId d)" and "d_role d = None" and "convertible (d_roomId d)"
  shows "on_disconnect c d s =
    Inr (d, ensureRoom s (d_roomId d),
         [Emit (To (JStr (''admin:'' @ str_of (d_roomId d)))) ''room:update''
            (RoomUpdate (fst (listStreamEnabledParticipants s (d_roomId d))))])"
  using assms by (simp add: on_disconnect_def Let_def store_eqs)

lemma on_disconnect_throws:
  assumes "truthy (d_roomId d)" and "\<not> convertible (d_roomId d)"
  shows "on_disconnect c d s =
    Inl (TypeError, d,
         (if d_role d = Some Admin then unsubscribed s (d_roomId d) c
          else if d_role d = Some Participant then removeParticipant s (d_roomId d) c
          else s), [])"
  using assms
  by (simp add: on_disconnect_def Let_def unsubscribed_eq template_throws
        broadcastAdminUpdate_throws)


subsection \<open>the results of a handler that returns\<close>

lemma on_join_Inr:
  assumes "on_join c now p d s = Inr (d', s', acts)"
  shows "(d' = d \<and> s' = s \<and> acts = [])
       \<or> (truthy (js_prop p ''roomId'') \<and> convertible (js_prop p ''roomId'')
           \<and> d' = d\<lparr>d_role := Some Participant, d_roomId := js_prop p ''roomId'',
                     d_userId := js_prop p ''userId''\<rparr>
           \<and> (\<exists>pt. s' = upsertParticipant s (js_prop p ''roomId'') c pt now))"
proof (cases "nullish p")
  case True
  with assms show ?thesis by (simp add: on_join_def)
next
  case n: False
  show ?thesis
  proof (cases "truthy (js_prop p ''roomId'') \<and> truthy (js_prop p ''userId'')")
    case False
    with n assms show ?thesis by (auto simp: on_join_invalid)
  next
    case True
    show ?thesis
    proof (cases "convertible (js_prop p ''roomId'')")
      case False
      with n True assms show ?thesis by (simp add: on_join_throws_late)
    next
      case cv: True
      with n True assms show ?thesis by (auto simp: on_join_valid)
    qed
  qed
qed

lemma on_stream_consent_Inr:
  assumes "on_stream_consent c now p d s = Inr (d', s', acts)"
  shows "d' = d \<and> ((s' = s \<and> acts = [])
       \<or> (truthy (js_prop p ''roomId'') \<and> convertible (js_prop p ''roomId'')
           \<and> (\<exists>pt. s' = upsertParticipant s (js_prop p ''roomId'') c pt now)))"
proof (cases "nullish p")
  case True
  with assms show ?thesis by (simp add: on_stream_consent_def)
next
  case n: False
  show ?thesis
  proof (cases "truthy (js_prop p ''roomId'') \<and> truthy (js_prop p ''userId'')")
    case False
    with n assms show ?thesis by (auto simp: on_stream_consent_invalid)
  next
    case True
    show ?thesis
    proof (cases "convertible (js_prop p ''roomId'')")
      case False
      with n True assms show ?thesis by (simp add: on_stream_consent_throws_late)
    next
      case cv: True
      with n True assms show ?thesis by (auto simp: on_stream_consent_valid)
    qed
  qed
qed

lemma on_ping_Inr:
  assumes "on_ping c now d s = Inr (d', s', acts)"
  shows "d' = d \<and> ((s' = s \<and> acts = [])
       \<or> (truthy (d_roomId d) \<and> convertible (d_roomId d)
           \<and> (\<exists>pt. s' = upsertParticipant s (d_roomId d) c pt now)))"
proof (cases "truthy (d_roomId d)")
  case False
  with assms show ?thesis by (auto simp: on_ping_no_room)
next
  case True
  show ?thesis
  proof (cases "convertible (d_roomId d)")
    case False
    with True assms show ?thesis by (simp add: on_ping_throws)
  next
    case cv: True
    with True assms show ?thesis by (auto simp: on_ping_room)
  qed
qed

lemma on_admin_subscribe_Inr:
  assumes "on_admin_subscribe c p d s = Inr (d', s', acts)"
  shows "(d' = d \<and> s' = s \<and> acts = [])
       \<or> (truthy (js_prop p ''roomId'') \<and> convertible (js_prop p ''roomId'')
           \<and> d' = d\<lparr>d_role := Some Admin, d_roomId := js_prop p ''roomId''\<rparr>
           \<and> s' = subscribed s (js_prop p ''roomId'') c)"
proof (cases "nullish p")
  case True
  with assms show ?thesis by (simp add: on_admin_subscribe_def)
next
  case n: False
  show ?thesis
  proof (cases "truthy (js_prop p ''roomId'')")
    case False
    with n assms show ?thesis by (auto simp: on_admin_subscribe_invalid)
  next
    case True
    show ?thesis
    proof (cases "convertible (js_prop p ''roomId'')")
      case False
      with n True assms show ?thesis by (simp add: on_admin_subscribe_throws_late)
    next
      case cv: True
      with n True assms show ?thesis by (auto simp: on_admin_subscribe_valid)
    qed
  qed
qed

lemma on_disconnect_Inr:
  assumes "on_disconnect c d s = Inr (d', s', acts)"
  shows "d' = d \<and> ((\<not> truthy (d_roomId d) \<and> s' = s \<and> acts = [])
       \<or> (truthy (d_roomId d) \<and> convertible (d_roomId d)
           \<and> ((d_role d = Some Admin \<and> s' = unsubscribed s (d_roomId d) c)
             \<or> (d_role d = Some Participant
                 \<and> s' = ensureRoom (removeParticipant s (d_roomId d) c) (d_roomId d))
             \<or> (d_role d = None \<and> s' = ensureRoom s (d_roomId d)))))"
proof (cases "truthy (d_roomId d)")
  case False
  with assms show ?thesis by (auto simp: on_disconnect_no_room)
next
  case True
  show ?thesis
  proof (cases "convertible (d_roomId d)")
    case False
    with True assms show ?thesis by (simp add: on_disconnect_throws)
  next
    case cv: True
    show ?thesis
    proof (cases "d_role d")
      case None
      with True cv assms show ?thesis by (auto simp: on_disconnect_unset)
    next
      case (Some ro)
      with True cv assms show ?thesis
        by (cases ro) (auto simp: on_disconnect_admin on_disconnect_participant)
    qed
  qed
qed

lemma relay_cases:
  "on_webrtc_offer c p d s = Inr (d', s', acts) \<Longrightarrow> d' = d \<and> s' = s"
  "on_webrtc_answer c p d s = Inr (d', s', acts) \<Longrightarrow> d' = d \<and> s' = s"
  "on_webrtc_ice c p d s = Inr (d', s', acts) \<Longrightarrow> d' = d \<and> s' = s"
  by (auto simp: on_webrtc_offer_def on_webrtc_answer_def on_webrtc_ice_def split: if_splits)

lemma handle_cases:
  assumes "handle c now ev d s = Inr (d', s', acts)"
  shows "s' = s \<or> (\<exists>r pt. s' = upsertParticipant s r c pt now) \<or> (\<exists>r. s' = subscribed s r c)
       \<or> (ev = Disconnect \<and> (\<exists>r. s' = unsubscribed s r c
              \<or> s' = ensureRoom (removeParticipant s r c) r \<or> s' = ensureRoom s r))"
proof (cases ev)
  case (Join p)
  with assms on_join_Inr [of c now p d s d' s' acts] show ?thesis by auto
next
  case Ping
  with assms on_ping_Inr [of c now d s d' s' acts] show ?thesis by auto
next
  case (StreamConsent p)
  with assms on_stream_consent_Inr [of c now p d s d' s' acts] show ?thesis by auto
next
  case (AdminSubscribe p)
  with assms on_admin_subscribe_Inr [of c p d s d' s' acts] show ?thesis by auto
next
  case (WebrtcOffer p)
  with assms relay_cases(1) [of c p d s d' s' acts] show ?thesis by auto
next
  case (WebrtcAnswer p)
  with assms relay_cases(2) [of c p d s d' s' acts] show ?thesis by auto
next
  case (WebrtcIce p)
  with assms relay_cases(3) [of c p d s d' s' acts] show ?thesis by auto
next
  case Disconnect
  with assms on_disconnect_Inr [of c d s d' s' acts] show ?thesis by auto
qed

text \<open>Frame: a handler touches no participant object of another connection.\<close>

lemma handle_other_record:
  assumes "handle c now ev d s = Inr (d', s', acts)" and "x \<noteq> c"
  shows "map_get (room_of s' r) x = map_get (room_of s r) x"
  using handle_cases [OF assms(1)] assms(2)
  by (auto simp: room_of_upsertParticipant room_of_subscribed room_of_unsubscribed
        room_of_ensureRoom room_of_removeParticipant map_get_map_set map_get_map_delete)

lemma handle_admins_kept:
  assumes "handle c now ev d s = Inr (d', s', acts)" and "x \<in> set (admins_of s r)"
    and "ev \<noteq> Disconnect \<or> x \<noteq> c"
  shows "x \<in> set (admins_of s' r)"
  using handle_cases [OF assms(1)] assms(2,3)
  by (auto simp: admins_of_upsertParticipant admins_of_subscribed admins_of_unsubscribed
        admins_of_ensureRoom admins_of_removeParticipant set_set_add set_set_delete)

lemma step_Inr:
  "step st (c, now, ev) = Inr (st', acts) \<longleftrightarrow>
     (\<exists>d s. handle c now ev (sockets st c) (store st) = Inr (d, s, acts)
            \<and> st' = \<lparr>store = s, sockets = (sockets st)(c := d)\<rparr>)"
  by (auto simp: step_def split: sum.splits)

lemma run_Cons_Inr:
  "run st (oc # ocs) = Inr (st', acts) \<longleftrightarrow>
     (\<exists>st1 a1 a2. step st oc = Inr (st1, a1) \<and> run st1 ocs = Inr (st', a2) \<and> acts = a1 @ a2)"
  by (auto split: sum.splits)

lemma handle_data:
  assumes "handle c now ev d s = Inr (d', s', acts)" and "\<not> writes_data ev"
  shows "d' = d"
proof (cases ev)
  case Ping
  with assms on_ping_Inr [of c now d s d' s' acts] show ?thesis by simp
next
  case (StreamConsent p)
  with assms on_stream_consent_Inr [of c now p d s d' s' acts] show ?thesis by simp
next
  case (WebrtcOffer p)
  with assms relay_cases(1) [of c p d s d' s' acts] show ?thesis by simp
next
  case (WebrtcAnswer p)
  with assms relay_cases(2) [of c p d s d' s' acts] show ?thesis by simp
next
  case (WebrtcIce p)
  with assms relay_cases(3) [of c p d s d' s' acts] show ?thesis by simp
next
  case Disconnect
  with assms on_disconnect_Inr [of c d s d' s' acts] show ?thesis by simp
qed (use assms in auto)


subsection \<open>when a handler throws\<close>

lemma on_join_throws:
  "(\<exists>x. on_join c now p d s = Inl x) \<longleftrightarrow> throws d (Join p)"
proof (cases "nullish p")
  case True
  then show ?thesis by (simp add: on_join_def)
next
  case n: False
  show ?thesis
  proof (cases "truthy (js_prop p ''roomId'') \<and> truthy (js_prop p ''userId'')")
    case False
    with n show ?thesis by (auto simp: on_join_invalid)
  next
    case True
    with n show ?thesis
      by (cases "convertible (js_prop p ''roomId'')")
         (simp_all add: on_join_valid on_join_throws_late)
  qed
qed

lemma on_stream_consent_throws:
  "(\<exists>x. on_stream_consent c now p d s = Inl x) \<longleftrightarrow> throws d (StreamConsent p)"
proof (cases "nullish p")
  case True
  then show ?thesis by (simp add: on_stream_consent_def)
next
  case n: False
  show ?thesis
  proof (cases "truthy (js_prop p ''roomId'') \<and> truthy (js_prop p ''userId'')")
    case False
    with n show ?thesis by (auto simp: on_stream_consent_invalid)
  next
    case True
    with n show ?thesis
      by (cases "convertible (js_prop p ''roomId'')")
         (simp_all add: on_stream_consent_valid on_stream_consent_throws_late)
  qed
qed

lemma on_admin_subscribe_throws:
  "(\<exists>x. on_admin_subscribe c p d s = Inl x) \<longleftrightarrow> throws d (AdminSubscribe p)"
proof (cases "nullish p")
  case True
  then show ?thesis by (simp add: on_admin_subscribe_def)
next
  case n: False
  show ?thesis
  proof (cases "truthy (js_prop p ''roomId'')")
    case False
    with n show ?thesis by (simp add: on_admin_subscribe_invalid)
  next
    case True
    with n show ?thesis
      by (cases "convertible (js_prop p ''roomId'')")
         (simp_all add: on_admin_subscribe_valid on_admin_subscribe_throws_late)
  qed
qed

lemma on_ping_throws_iff: "(\<exists>x. on_ping c now d s = Inl x) \<longleftrightarrow> throws d Ping"
proof (cases "truthy (d_roomId d)")
  case False
  then show ?thesis by (simp add: on_ping_no_room)
next
  case True
  then show ?thesis
    by (cases "convertible (d_roomId d)") (simp_all add: on_ping_room on_ping_throws)
qed

lemma on_disconnect_throws_iff:
  "(\<exists>x. on_disconnect c d s = Inl x) \<longleftrightarrow> throws d Disconnect"
proof (cases "truthy (d_roomId d)")
  case False
  then show ?thesis by (simp add: on_disconnect_no_room)
next
  case True
  show ?thesis
  proof (cases "convertible (d_roomId d)")
    case False
    with True show ?thesis by (simp add: on_disconnect_throws)
  next
    case cv: True
    show ?thesis
    proof (cases "d_role d")
      case None
      with True cv show ?thesis by (simp add: on_disconnect_unset)
    next
      case (Some ro)
      with True cv show ?thesis
        by (cases ro) (simp_all add: on_disconnect_admin on_disconnect_participant)
    qed
  qed
qed

lemma handle_throws: "(\<exists>x. handle c now ev d s = Inl x) \<longleftrightarrow> throws d ev"
proof (cases ev)
  case (Join p)
  then show ?thesis by (simp only: handle.simps on_join_throws)
next
  case Ping
  then show ?thesis by (simp only: handle.simps on_ping_throws_iff)
next
  case (StreamConsent p)
  then show ?thesis by (simp only: handle.simps on_stream_consent_throws)
next
  case (AdminSubscribe p)
  then show ?thesis by (simp only: handle.simps on_admin_subscribe_throws)
next
  case (WebrtcOffer p)
  then show ?thesis by (auto simp: on_webrtc_offer_def)
next
  case (WebrtcAnswer p)
  then show ?thesis by (auto simp: on_webrtc_answer_def)
next
  case (WebrtcIce p)
  then show ?thesis by (auto simp: on_webrtc_ice_def)
next
  case Disconnect
  then show ?thesis by (simp only: handle.simps on_disconnect_throws_iff)
qed

lemma well_formed_not_throws: "well_formed ev \<Longrightarrow> convertible (d_roomId d) \<Longrightarrow> \<not> throws d ev"
  by (cases ev) simp_all

lemma step_total:
  "\<not> throws (sockets st c) ev \<Longrightarrow> \<exists>st' acts. step st (c, now, ev) = Inr (st', acts)"
  using handle_throws [of c now ev "sockets st c" "store st"]
  by (cases "handle c now ev (sockets st c) (store st)") (auto simp: step_def)

lemma handle_label_converts:
  assumes "handle c now ev d s = Inr (d', s', acts)" and "convertible (d_roomId d)"
  shows "convertible (d_roomId d')"
proof (cases ev)
  case (Join p)
  with assms on_join_Inr [of c now p d s d' s' acts] show ?thesis by auto
next
  case (AdminSubscribe p)
  with assms on_admin_subscribe_Inr [of c p d s d' s' acts] show ?thesis by auto
qed (use assms handle_data [OF assms(1)] in auto)

lemma step_labels_convert:
  assumes "step st oc = Inr (st', acts)" and "labels_convert st"
  shows "labels_convert st'"
proof -
  obtain c now ev where oc: "oc = (c, now, ev)" by (cases oc) auto
  with assms(1) obtain d s where h: "handle c now ev (sockets st c) (store st) = Inr (d, s, acts)"
    and st': "st' = \<lparr>store = s, sockets = (sockets st)(c := d)\<rparr>"
    by (auto simp: step_Inr)
  from assms(2) have "convertible (d_roomId (sockets st c))" by (simp add: labels_convert_def)
  from handle_label_converts [OF h this] assms(2) st' show ?thesis
    by (simp add: labels_convert_def)
qed

lemma labels_convert_init: "labels_convert init"
  by (simp add: labels_convert_def init_def fresh_def convertible_primitive)

lemma run_total:
  "labels_convert st \<Longrightarrow> \<forall>oc \<in> set ocs. well_formed (snd (snd oc)) \<Longrightarrow>
     \<exists>st' acts. run st ocs = Inr (st', acts)"
proof (induction ocs arbitrary: st)
  case Nil
  then show ?case by simp
next
  case (Cons oc ocs)
  obtain c now ev where oc: "oc = (c, now, ev)" by (cases oc) auto
  from Cons.prems(1) have "convertible (d_roomId (sockets st c))"
    by (simp add: labels_convert_def)
  with Cons.prems(2) oc have "\<not> throws (sockets st c) ev"
    by (simp add: well_formed_not_throws)
  from step_total [OF this, of now] oc obtain st1 a1 where 1: "step st oc = Inr (st1, a1)"
    by auto
  from step_labels_convert [OF 1 Cons.prems(1)] have "labels_convert st1" .
  from Cons.IH [OF this] Cons.prems(2) obtain st2 a2 where "run st1 ocs = Inr (st2, a2)"
    by auto
  with 1 show ?case by simp
qed

lemma run_labels_convert:
  "run st ocs = Inr (st', acts) \<Longrightarrow> labels_convert st \<Longrightarrow> labels_convert st'"
proof (induction ocs arbitrary: st acts)
  case Nil
  then show ?case by simp
next
  case (Cons oc ocs)
  from Cons.prems(1) obtain st1 a1 a2 where 1: "step st oc = Inr (st1, a1)"
    and 2: "run st1 ocs = Inr (st', a2)"
    unfolding run_Cons_Inr by blast
  from Cons.IH [OF 2 step_labels_convert [OF 1 Cons.prems(2)]] show ?case .
qed

subsection \<open>runs\<close>

lemma step_other_record:
  assumes "step st oc = Inr (st', acts)" and "fst oc \<noteq> x"
  shows "map_get (room_of (store st') r) x = map_get (room_of (store st) r) x"
proof -
  obtain c now ev where oc: "oc = (c, now, ev)" by (cases oc) auto
  with assms(1) obtain d s where h: "handle c now ev (sockets st c) (store st) = Inr (d, s, acts)"
    and st': "st' = \<lparr>store = s, sockets = (sockets st)(c := d)\<rparr>"
    by (auto simp: step_Inr)
  from handle_other_record [OF h, of x r] assms(2) oc st' show ?thesis by auto
qed

lemma run_other_record:
  "run st ocs = Inr (st', acts) \<Longrightarrow> \<forall>oc \<in> set ocs. fst oc \<noteq> x \<Longrightarrow>
     map_get (room_of (store st') r) x = map_get (room_of (store st) r) x"
proof (induction ocs arbitrary: st acts)
  case Nil
  then show ?case by simp
next
  case (Cons oc ocs)
  from Cons.prems(1) obtain st1 a1 a2 where 1: "step st oc = Inr (st1, a1)"
    and 2: "run st1 ocs = Inr (st', a2)"
    unfolding run_Cons_Inr by blast
  from Cons.IH [OF 2] Cons.prems(2) step_other_record [OF 1, of x r] show ?case by simp
qed

lemma step_admins_kept:
  assumes "step st oc = Inr (st', acts)" and "x \<in> set (admins_of (store st) r)"
    and "\<not> (fst oc = x \<and> snd (snd oc) = Disconnect)"
  shows "x \<in> set (admins_of (store st') r)"
proof -
  obtain c now ev where oc: "oc = (c, now, ev)" by (cases oc) auto
  with assms(1) obtain d s where h: "handle c now ev (sockets st c) (store st) = Inr (d, s, acts)"
    and st': "st' = \<lparr>store = s, sockets = (sockets st)(c := d)\<rparr>"
    by (auto simp: step_Inr)
  from handle_admins_kept [OF h assms(2)] assms(3) oc st' show ?thesis by auto
qed

lemma run_admins_kept:
  "run st ocs = Inr (st', acts) \<Longrightarrow> x \<in> set (admins_of (store st) r) \<Longrightarrow>
   \<forall>oc \<in> set ocs. \<not> (fst oc = x \<and> snd (snd oc) = Disconnect) \<Longrightarrow>
     x \<in> set (admins_of (store st') r)"
proof (induction ocs arbitrary: st acts)
  case Nil
  then show ?case by simp
next
  case (Cons oc ocs)
  from Cons.prems(1) obtain st1 a1 a2 where 1: "step st oc = Inr (st1, a1)"
    and 2: "run st1 ocs = Inr (st', a2)"
    unfolding run_Cons_Inr by blast
  from step_admins_kept [OF 1 Cons.prems(2)] Cons.prems(3)
  have "x \<in> set (admins_of (store st1) r)" by simp
  from Cons.IH [OF 2 this] Cons.prems(3) show ?case by simp
qed


lemma spread_twice:
  assumes "p_userId pt1 = None \<or> p_userId pt2 \<noteq> None"
    and "p_displayName pt1 = None \<or> p_displayName pt2 \<noteq> None"
    and "p_streamAllowed pt1 = None \<or> p_streamAllowed pt2 \<noteq> None"
  shows "spread (Some (spread prev pt1 t1)) pt2 t2 = spread prev pt2 t2"
proof (rule participant.equality)
  show "userId (spread (Some (spread prev pt1 t1)) pt2 t2) = userId (spread prev pt2 t2)"
    using assms(1) by (cases "p_userId pt2") (auto simp: spread_def)
  show "displayName (spread (Some (spread prev pt1 t1)) pt2 t2)
          = displayName (spread prev pt2 t2)"
    using assms(2) by (cases "p_displayName pt2") (auto simp: spread_def)
  show "streamAllowed (spread (Some (spread prev pt1 t1)) pt2 t2)
          = streamAllowed (spread prev pt2 t2)"
    using assms(3) by (cases "p_streamAllowed pt2") (auto simp: spread_def)
qed (simp_all add: spread_def)

lemma upsertParticipant_twice:
  assumes "p_userId pt1 = None \<or> p_userId pt2 \<noteq> None"
    and "p_displayName pt1 = None \<or> p_displayName pt2 \<noteq> None"
    and "p_streamAllowed pt1 = None \<or> p_streamAllowed pt2 \<noteq> None"
  shows "upsertParticipant (upsertParticipant s r c pt1 t1) r c pt2 t2
           = upsertParticipant s r c pt2 t2"
proof (rule store.equality)
  show "rooms (upsertParticipant (upsertParticipant s r c pt1 t1) r c pt2 t2)
          = rooms (upsertParticipant s r c pt2 t2)"
    by (simp add: rooms_upsertParticipant room_of_upsertParticipant map_get_map_set
          map_set_twice spread_twice [OF assms])
  show "roomAdmins (upsertParticipant (upsertParticipant s r c pt1 t1) r c pt2 t2)
          = roomAdmins (upsertParticipant s r c pt2 t2)"
    by (simp add: roomAdmins_upsertParticipant ensureRoom_upsertParticipant)
qed simp



lemma step_stream_consent:
  assumes "\<not> nullish p" and "js_prop p ''roomId'' = r" and "truthy r" and "convertible r"
    and "truthy (js_prop p ''userId'')" and "truthy (js_prop p ''allow'') = a"
  shows "\<exists>st' acts. step st (c, now, StreamConsent p) = Inr (st', acts)
    \<and> store st' = upsertParticipant (store st) r c
             \<lparr>p_userId = Some (js_prop p ''userId''), p_displayName = None,
              p_streamAllowed = Some a\<rparr> now
    \<and> sockets st' = sockets st"
  using assms by (simp add: step_def on_stream_consent_valid)

lemma step_join:
  assumes "\<not> nullish p" and "js_prop p ''roomId'' = r" and "truthy r" and "convertible r"
    and "truthy (js_prop p ''userId'')"
  shows "\<exists>st' acts. step st (c, now, Join p) = Inr (st', acts)
    \<and> store st' = upsertParticipant (store st) r c
             \<lparr>p_userId = Some (js_prop p ''userId''),
              p_displayName = Some (js_or (js_prop p ''displayName'') (js_prop p ''userId'')),
              p_streamAllowed = None\<rparr> now
    \<and> sockets st' = (sockets st)(c := (sockets st c)\<lparr>d_role := Some Participant,
             d_roomId := r, d_userId := js_prop p ''userId''\<rparr>)"
  using assms by (simp add: step_def on_join_valid)

lemma step_own_quiet:
  assumes "step st (c, now, ev) = Inr (st', acts)" and "\<not> writes_data ev"
    and "\<not> truthy (d_roomId (sockets st c))"
    and "map_get (room_of (store st) r) c \<noteq> None"
  shows "sockets st' = sockets st \<and> map_get (room_of (store st') r) c \<noteq> None"
proof -
  from assms(1) obtain d s where h: "handle c now ev (sockets st c) (store st) = Inr (d, s, acts)"
    and st': "st' = \<lparr>store = s, sockets = (sockets st)(c := d)\<rparr>"
    by (auto simp: step_Inr)
  from handle_data [OF h assms(2)] have d: "d = sockets st c" .
  have "map_get (room_of s r) c \<noteq> None"
  proof (cases "ev = Disconnect")
    case True
    with h assms(3) have "s = store st" by (simp add: on_disconnect_no_room)
    with assms(4) show ?thesis by simp
  next
    case False
    with handle_cases [OF h] assms(4) show ?thesis
      by (auto simp: room_of_upsertParticipant room_of_subscribed map_get_map_set)
  qed
  with d st' show ?thesis by simp
qed

lemma step_other_socket:
  assumes "step st oc = Inr (st', acts)" and "fst oc \<noteq> x"
  shows "sockets st' x = sockets st x"
proof -
  obtain c now ev where oc: "oc = (c, now, ev)" by (cases oc) auto
  with assms show ?thesis by (auto simp: step_Inr)
qed

lemma run_own_quiet:
  "run st ocs = Inr (st', acts) \<Longrightarrow>
   \<forall>oc \<in> set ocs. fst oc = c \<longrightarrow> \<not> writes_data (snd (snd oc)) \<Longrightarrow>
   \<not> truthy (d_roomId (sockets st c)) \<Longrightarrow> map_get (room_of (store st) r) c \<noteq> None \<Longrightarrow>
     \<not> truthy (d_roomId (sockets st' c)) \<and> map_get (room_of (store st') r) c \<noteq> None"
proof (induction ocs arbitrary: st acts)
  case Nil
  then show ?case by simp
next
  case (Cons oc ocs)
  from Cons.prems(1) obtain st1 a1 a2 where 1: "step st oc = Inr (st1, a1)"
    and 2: "run st1 ocs = Inr (st', a2)"
    unfolding run_Cons_Inr by blast
  obtain x now ev where oc: "oc = (x, now, ev)" by (cases oc) auto
  have "\<not> truthy (d_roomId (sockets st1 c)) \<and> map_get (room_of (store st1) r) c \<noteq> None"
  proof (cases "x = c")
    case True
    with Cons.prems(2) oc have "\<not> writes_data ev" by simp
    from step_own_quiet [OF 1 [unfolded oc True] this Cons.prems(3,4)] Cons.prems(3)
    show ?thesis by simp
  next
    case False
    with step_other_socket [OF 1, of c] step_other_record [OF 1, of c r] oc Cons.prems(3,4)
    show ?thesis by simp
  qed
  with Cons.IH [OF 2] Cons.prems(2) show ?case by simp
qed

lemma step_disconnect_no_room:
  "\<not> truthy (d_roomId (sockets st c)) \<Longrightarrow> step st (c, now, Disconnect) = Inr (st, [])"
  by (simp add: step_def on_disconnect_no_room)


lemma step_own_unlabelled:
  assumes "step st (c, now, ev) = Inr (st', acts)" and "\<not> names_room ev"
    and "\<not> truthy (d_roomId (sockets st c))"
  shows "st' = st"
proof -
  from assms(1) obtain d s where h: "handle c now ev (sockets st c) (store st) = Inr (d, s, acts)"
    and st': "st' = \<lparr>store = s, sockets = (sockets st)(c := d)\<rparr>"
    by (auto simp: step_Inr)
  have "d = sockets st c \<and> s = store st"
  proof (cases ev)
    case Ping
    with h assms(3) show ?thesis by (simp add: on_ping_no_room)
  next
    case Disconnect
    with h assms(3) show ?thesis by (simp add: on_disconnect_no_room)
  next
    case (WebrtcOffer p)
    with h relay_cases(1) [of c p "sockets st c" "store st" d s acts] show ?thesis by simp
  next
    case (WebrtcAnswer p)
    with h relay_cases(2) [of c p "sockets st c" "store st" d s acts] show ?thesis by simp
  next
    case (WebrtcIce p)
    with h relay_cases(3) [of c p "sockets st c" "store st" d s acts] show ?thesis by simp
  qed (use assms(2) in auto)
  with st' show ?thesis by simp
qed

lemma run_own_unlabelled:
  "run st ocs = Inr (st', acts) \<Longrightarrow>
   \<forall>oc \<in> set ocs. fst oc = c \<longrightarrow> \<not> names_room (snd (snd oc)) \<Longrightarrow>
   \<not> truthy (d_roomId (sockets st c)) \<Longrightarrow>
     \<not> truthy (d_roomId (sockets st' c))
     \<and> map_get (room_of (store st') r) c = map_get (room_of (store st) r) c"
proof (induction ocs arbitrary: st acts)
  case Nil
  then show ?case by simp
next
  case (Cons oc ocs)
  from Cons.prems(1) obtain st1 a1 a2 where 1: "step st oc = Inr (st1, a1)"
    and 2: "run st1 ocs = Inr (st', a2)"
    unfolding run_Cons_Inr by blast
  obtain x now ev where oc: "oc = (x, now, ev)" by (cases oc) auto
  have "\<not> truthy (d_roomId (sockets st1 c))
        \<and> map_get (room_of (store st1) r) c = map_get (room_of (store st) r) c"
  proof (cases "x = c")
    case True
    with Cons.prems(2) oc have "\<not> names_room ev" by simp
    from step_own_unlabelled [OF 1 [unfolded oc True] this Cons.prems(3)] Cons.prems(3)
    show ?thesis by simp
  next
    case False
    with step_other_socket [OF 1, of c] step_other_record [OF 1, of c r] oc Cons.prems(3)
    show ?thesis by simp
  qed
  with Cons.IH [OF 2, of ] Cons.prems(2) show ?case by simp
qed

lemma ex_join_props:
  "\<not> nullish (ex_join r u)" "js_prop (ex_join r u) ''roomId'' = JStr r"
  "js_prop (ex_join r u) ''userId'' = JStr u" "js_prop (ex_join r u) ''displayName'' = JUndefined"
  by (simp_all add: ex_join_def)

lemma ex_consent_props:
  "\<not> nullish (ex_consent r u b)" "js_prop (ex_consent r u b) ''roomId'' = JStr r"
  "js_prop (ex_consent r u b) ''userId'' = JStr u" "js_prop (ex_consent r u b) ''allow'' = JBool b"
  by (simp_all add: ex_consent_def)

lemma ex_subscribe_props:
  "\<not> nullish (ex_subscribe r)" "js_prop (ex_subscribe r) ''roomId'' = JStr r"
  by (simp_all add: ex_subscribe_def)


lemma ex_convertible:
  "convertible (js_prop (ex_join r u) ''roomId'')"
  "convertible (js_prop (ex_consent r u b) ''roomId'')"
  "convertible (js_prop (ex_subscribe r) ''roomId'')"
  by (simp_all add: ex_join_props ex_consent_props ex_subscribe_props convertible_primitive)

lemma ex_trace_well_formed: "\<forall>oc \<in> set ex_trace. well_formed (snd (snd oc))"
  by (simp add: ex_trace_def ex_join_props ex_subscribe_props convertible_primitive)

lemma ex_later_well_formed: "\<forall>oc \<in> set ex_later. well_formed (snd (snd oc))"
  by (simp add: ex_later_def ex_join_props convertible_primitive)

lemma missing_fields_ignored:
  assumes "\<not> nullish p"
  shows "(\<not> truthy (js_prop p ''roomId'') \<or> \<not> truthy (js_prop p ''userId'')
            \<longrightarrow> step st (c, now, Join p) = Inr (st, [])
              \<and> step st (c, now, StreamConsent p) = Inr (st, []))
       \<and> (\<not> truthy (js_prop p ''roomId'')
            \<longrightarrow> step st (c, now, AdminSubscribe p) = Inr (st, []))"
  using assms
  by (auto simp: step_def on_join_invalid on_stream_consent_invalid on_admin_subscribe_invalid)

lemma hidden_without_record:
  assumes "map_get (room_of s r) c = None"
  shows "c \<notin> e_socketId ` set (fst (listStreamEnabledParticipants s r))"
proof -
  from assms have "c \<notin> fst ` set (room_of s r)" by (simp add: map_get_None_iff)
  then show ?thesis by (force simp: visible_eq entry_of_def image_iff)
qed


lemma participant_disconnect_removes:
  assumes "d_role (sockets st c) = Some Participant" and "d_roomId (sockets st c) = r"
    and "truthy r" and "convertible r" and "\<forall>oc \<in> set ocs. fst oc \<noteq> c"
  shows "\<exists>st1 lst. step st (c, t, Disconnect)
              = Inr (st1, [Emit (To (JStr (''admin:'' @ str_of r))) ''room:update''
                             (RoomUpdate lst)])
         \<and> c \<notin> e_socketId ` set lst
         \<and> (\<forall>st2 a2. run st1 ocs = Inr (st2, a2) \<longrightarrow>
               map_get (room_of (store st2) r) c = None
               \<and> c \<notin> e_socketId ` set (fst (listStreamEnabledParticipants (store st2) r)))"
proof -
  let ?s1 = "ensureRoom (removeParticipant (store st) r c) r"
  let ?st1 = "\<lparr>store = ?s1, sockets = sockets st\<rparr>"
  let ?lst = "fst (listStreamEnabledParticipants (removeParticipant (store st) r c) r)"
  have 1: "step st (c, t, Disconnect)
             = Inr (?st1, [Emit (To (JStr (''admin:'' @ str_of r))) ''room:update''
                             (RoomUpdate ?lst)])"
    using assms(1,2,3,4) by (simp add: step_def on_disconnect_participant)
  have gone: "map_get (room_of (removeParticipant (store st) r c) r) c = None"
    by (simp add: room_of_removeParticipant map_get_map_delete)
  then have 2: "c \<notin> e_socketId ` set ?lst" by (rule hidden_without_record)
  have g1: "map_get (room_of (store ?st1) r) c = None"
    using gone by (simp add: room_of_ensureRoom)
  have "map_get (room_of (store st2) r) c = None
        \<and> c \<notin> e_socketId ` set (fst (listStreamEnabledParticipants (store st2) r))"
    if "run ?st1 ocs = Inr (st2, a2)" for st2 a2
  proof -
    from run_other_record [OF that, of c r] assms(5) g1
    have "map_get (room_of (store st2) r) c = None" by simp
    then show ?thesis by (simp add: hidden_without_record)
  qed
  with 1 2 show ?thesis by blast
qed

text \<open>The keys of every room are distinct in every state a run reaches from the empty server.\<close>

lemma distinct_map_set: "distinct (map fst m) \<Longrightarrow> distinct (map fst (map_set k v m))"
  by (simp add: keys_map_set)

lemma distinct_map_delete: "distinct (map fst m) \<Longrightarrow> distinct (map fst (map_delete k m))"
  by (simp add: map_delete_def distinct_map_filter)

lemma handle_distinct_keys:
  assumes "handle c now ev d s = Inr (d', s', acts)" and "distinct (map fst (room_of s r))"
  shows "distinct (map fst (room_of s' r))"
  using handle_cases [OF assms(1)] assms(2)
  by (auto simp: room_of_upsertParticipant room_of_subscribed room_of_unsubscribed
        room_of_ensureRoom room_of_removeParticipant distinct_map_set distinct_map_delete)

lemma run_distinct_keys:
  "run st ocs = Inr (st', acts) \<Longrightarrow> distinct (map fst (room_of (store st) r)) \<Longrightarrow>
     distinct (map fst (room_of (store st') r))"
proof (induction ocs arbitrary: st acts)
  case Nil
  then show ?case by simp
next
  case (Cons oc ocs)
  from Cons.prems(1) obtain st1 a1 a2 where 1: "step st oc = Inr (st1, a1)"
    and 2: "run st1 ocs = Inr (st', a2)"
    unfolding run_Cons_Inr by blast
  obtain c now ev where oc: "oc = (c, now, ev)" by (cases oc) auto
  from 1 oc obtain d s where h: "handle c now ev (sockets st c) (store st) = Inr (d, s, a1)"
    and st1: "st1 = \<lparr>store = s, sockets = (sockets st)(c := d)\<rparr>"
    by (auto simp: step_Inr)
  from handle_distinct_keys [OF h Cons.prems(2)] st1
  have "distinct (map fst (room_of (store st1) r))" by simp
  from Cons.IH [OF 2 this] show ?case .
qed

lemma reachable_distinct_keys:
  "run init ocs = Inr (st, acts) \<Longrightarrow> distinct (map fst (room_of (store st) r))"
  by (rule run_distinct_keys [of init ocs st acts r])
     (simp_all add: init_def empty_store_def room_of_def)



subsection \<open>which rooms the store holds\<close>

lemma present_ensureRoom:
  "rooms (ensureRoom s r) r' = None \<longleftrightarrow> r' \<noteq> r \<and> rooms s r' = None"
  "roomAdmins (ensureRoom s r) r' = None \<longleftrightarrow> r' \<noteq> r \<and> roomAdmins s r' = None"
  by (auto simp: rooms_ensureRoom roomAdmins_ensureRoom)

lemma present_upsertParticipant:
  "rooms (upsertParticipant s r c pt now) r' = None \<longleftrightarrow> r' \<noteq> r \<and> rooms s r' = None"
  "roomAdmins (upsertParticipant s r c pt now) r' = None \<longleftrightarrow> r' \<noteq> r \<and> roomAdmins s r' = None"
  by (auto simp: rooms_upsertParticipant roomAdmins_upsertParticipant roomAdmins_ensureRoom)

lemma present_subscribed:
  "rooms (subscribed s r c) r' = None \<longleftrightarrow> r' \<noteq> r \<and> rooms s r' = None"
  "roomAdmins (subscribed s r c) r' = None \<longleftrightarrow> r' \<noteq> r \<and> roomAdmins s r' = None"
  by (auto simp: subscribed_def rooms_ensureRoom roomAdmins_ensureRoom)

lemma present_unsubscribed:
  "rooms (unsubscribed s r c) r' = None \<longleftrightarrow> r' \<noteq> r \<and> rooms s r' = None"
  "roomAdmins (unsubscribed s r c) r' = None \<longleftrightarrow> r' \<noteq> r \<and> roomAdmins s r' = None"
  by (auto simp: unsubscribed_def rooms_ensureRoom roomAdmins_ensureRoom)

lemma present_removeParticipant:
  "rooms (removeParticipant s r c) r' = None \<longleftrightarrow> rooms s r' = None"
  "roomAdmins (removeParticipant s r c) r' = roomAdmins s r'"
  by (auto simp: removeParticipant_def split: option.splits)

lemmas present_simps = present_ensureRoom present_upsertParticipant present_subscribed
  present_unsubscribed present_removeParticipant

lemma query_present:
  assumes "rooms s r \<noteq> None" and "roomAdmins s r \<noteq> None"
  shows "snd (listAdmins s r) = s" and "snd (listStreamEnabledParticipants s r) = s"
  using assms by (simp_all add: listAdmins_eq listStreamEnabledParticipants_eq ensureRoom_present)

lemma handle_present_mono:
  assumes "handle c now ev d s = Inr (d', s', acts)"
  shows "rooms s r \<noteq> None \<Longrightarrow> rooms s' r \<noteq> None"
    and "roomAdmins s r \<noteq> None \<Longrightarrow> roomAdmins s' r \<noteq> None"
  using handle_cases [OF assms] by (auto simp: present_simps iff del: not_None_eq)

lemma handle_labels_present:
  assumes "handle c now ev d s = Inr (d', s', acts)"
    and "truthy (d_roomId d) \<longrightarrow> rooms s (d_roomId d) \<noteq> None \<and> roomAdmins s (d_roomId d) \<noteq> None"
  shows "truthy (d_roomId d') \<longrightarrow>
           rooms s' (d_roomId d') \<noteq> None \<and> roomAdmins s' (d_roomId d') \<noteq> None"
proof (cases ev)
  case (Join p)
  with assms on_join_Inr [of c now p d s d' s' acts] show ?thesis
    by (auto simp: present_simps iff del: not_None_eq)
next
  case (AdminSubscribe p)
  with assms on_admin_subscribe_Inr [of c p d s d' s' acts] show ?thesis
    by (auto simp: present_simps iff del: not_None_eq)
next
  case Ping
  with handle_data [OF assms(1)] handle_present_mono [OF assms(1)] assms(2) show ?thesis
    by auto
next
  case (StreamConsent p)
  with handle_data [OF assms(1)] handle_present_mono [OF assms(1)] assms(2) show ?thesis
    by auto
next
  case (WebrtcOffer p)
  with handle_data [OF assms(1)] handle_present_mono [OF assms(1)] assms(2) show ?thesis
    by auto
next
  case (WebrtcAnswer p)
  with handle_data [OF assms(1)] handle_present_mono [OF assms(1)] assms(2) show ?thesis
    by auto
next
  case (WebrtcIce p)
  with handle_data [OF assms(1)] handle_present_mono [OF assms(1)] assms(2) show ?thesis
    by auto
next
  case Disconnect
  with handle_data [OF assms(1)] handle_present_mono [OF assms(1)] assms(2) show ?thesis
    by auto
qed

lemma handle_new_room:
  assumes "handle c now ev d s = Inr (d', s', acts)"
    and "truthy (d_roomId d) \<longrightarrow> rooms s (d_roomId d) \<noteq> None \<and> roomAdmins s (d_roomId d) \<noteq> None"
    and "(rooms s r = None \<and> rooms s' r \<noteq> None)
       \<or> (roomAdmins s r = None \<and> roomAdmins s' r \<noteq> None)"
  shows "\<exists>p. (ev = Join p \<or> ev = StreamConsent p \<or> ev = AdminSubscribe p)
            \<and> js_prop p ''roomId'' = r"
proof (cases ev)
  case (Join p)
  with assms on_join_Inr [of c now p d s d' s' acts] show ?thesis
    by (auto simp: present_simps iff del: not_None_eq)
next
  case Ping
  with assms on_ping_Inr [of c now d s d' s' acts] show ?thesis
    by (auto simp: present_simps iff del: not_None_eq)
next
  case (StreamConsent p)
  with assms on_stream_consent_Inr [of c now p d s d' s' acts] show ?thesis
    by (auto simp: present_simps iff del: not_None_eq)
next
  case (AdminSubscribe p)
  with assms on_admin_subscribe_Inr [of c p d s d' s' acts] show ?thesis
    by (auto simp: present_simps iff del: not_None_eq)
next
  case (WebrtcOffer p)
  with assms relay_cases(1) [of c p d s d' s' acts] show ?thesis by auto
next
  case (WebrtcAnswer p)
  with assms relay_cases(2) [of c p d s d' s' acts] show ?thesis by auto
next
  case (WebrtcIce p)
  with assms relay_cases(3) [of c p d s d' s' acts] show ?thesis by auto
next
  case Disconnect
  with assms on_disconnect_Inr [of c d s d' s' acts] show ?thesis
    by (auto simp: present_simps iff del: not_None_eq)
qed

lemma step_labels_present:
  assumes "step st oc = Inr (st', acts)" and "labels_present st"
  shows "labels_present st'"
proof -
  obtain c now ev where oc: "oc = (c, now, ev)" by (cases oc) auto
  with assms(1) obtain d s where h: "handle c now ev (sockets st c) (store st) = Inr (d, s, acts)"
    and st': "st' = \<lparr>store = s, sockets = (sockets st)(c := d)\<rparr>"
    by (auto simp: step_Inr)
  from assms(2) have own: "truthy (d_roomId (sockets st c)) \<longrightarrow>
      rooms (store st) (d_roomId (sockets st c)) \<noteq> None
      \<and> roomAdmins (store st) (d_roomId (sockets st c)) \<noteq> None"
    by (simp add: labels_present_def)
  from handle_labels_present [OF h own] handle_present_mono [OF h] assms(2) st'
  show ?thesis by (auto simp: labels_present_def)
qed

lemma labels_present_init: "labels_present init"
  by (simp add: labels_present_def init_def fresh_def)

lemma run_labels_present:
  "run st ocs = Inr (st', acts) \<Longrightarrow> labels_present st \<Longrightarrow> labels_present st'"
proof (induction ocs arbitrary: st acts)
  case Nil
  then show ?case by simp
next
  case (Cons oc ocs)
  from Cons.prems(1) obtain st1 a1 a2 where 1: "step st oc = Inr (st1, a1)"
    and 2: "run st1 ocs = Inr (st', a2)"
    unfolding run_Cons_Inr by blast
  from Cons.IH [OF 2 step_labels_present [OF 1 Cons.prems(2)]] show ?case .
qed

lemma step_new_room:
  assumes "run init ocs = Inr (st, acts)" and "step st (c, now, ev) = Inr (st', acts')"
    and "(rooms (store st) r = None \<and> rooms (store st') r \<noteq> None)
       \<or> (roomAdmins (store st) r = None \<and> roomAdmins (store st') r \<noteq> None)"
  shows "\<exists>p. (ev = Join p \<or> ev = StreamConsent p \<or> ev = AdminSubscribe p)
            \<and> js_prop p ''roomId'' = r"
proof -
  from run_labels_present [OF assms(1) labels_present_init]
  have own: "truthy (d_roomId (sockets st c)) \<longrightarrow>
      rooms (store st) (d_roomId (sockets st c)) \<noteq> None
      \<and> roomAdmins (store st) (d_roomId (sockets st c)) \<noteq> None"
    by (simp add: labels_present_def)
  from assms(2) obtain d s where h: "handle c now ev (sockets st c) (store st) = Inr (d, s, acts')"
    and st': "st' = \<lparr>store = s, sockets = (sockets st)(c := d)\<rparr>"
    by (auto simp: step_Inr)
  from assms(3) st' have "(rooms (store st) r = None \<and> rooms s r \<noteq> None)
       \<or> (roomAdmins (store st) r = None \<and> roomAdmins s r \<noteq> None)"
    by simp
  from handle_new_room [OF h own this] show ?thesis .
qed

text \<open>
  A room id that does not convert: \<open>join\<close> throws when it has written \<open>socket.data\<close> and
  made the room, before it has stored a participant; \<open>stream:consent\<close> throws when it has
  stored the participant and sent \<open>admin:list\<close>; \<open>admin:subscribe\<close> throws when it has
  added the id to the admin set. The numbers \<open>5\<close> and the string \<open>5\<close> are two rooms of
  the store and name one group.
\<close>

lemma unconvertible_room_id_throws:
  "thrown (step init (''A'', 1, Join (JObj 1 [(''roomId'', ex_bad_room), (''userId'', JStr ''u'')])))
     ''A'' ex_bad_room
     = Some (TypeError, [], Some Participant, [], [])
   \<and> thrown (step init (''A'', 1,
        StreamConsent (JObj 1 [(''roomId'', ex_bad_room), (''userId'', JStr ''u'')])))
     ''A'' ex_bad_room
     = Some (TypeError,
             [Emit (ToSocket ''A'') ''admin:list'' (AdminList ex_bad_room [])],
             None,
             [(''A'', \<lparr>userId = Some (JStr ''u''), displayName = None,
                       streamAllowed = Some False, lastSeen = 1\<rparr>)],
             [])
   \<and> thrown (step init (''A'', 1, AdminSubscribe (JObj 1 [(''roomId'', ex_bad_room)])))
     ''A'' ex_bad_room
     = Some (TypeError, [], Some Admin, [], [''A''])"
  by code_simp

lemma group_names_collide:
  "template ''room:'' (JNum 5) = template ''room:'' (JStr ''5'')
   \<and> template ''room:'' (JNum 5) = Inr ''room:5''
   \<and> JNum 5 \<noteq> JStr ''5''"
  by code_simp

section \<open>The derived view\<close>

text \<open>
  Claim C1. For every store and room, the list \<open>listStreamEnabledParticipants\<close> returns
  holds exactly the participants of the room whose \<open>streamAllowed\<close> is \<open>true\<close>, each once
  and each as \<open>{socketId, userId, displayName, lastSeen}\<close>; the list is the same whatever
  the admin sets are; and, the keys of the room being distinct as they are in a \<open>Map\<close>
  (lemma \<open>reachable_distinct_keys\<close>),
  the connection ids in the list are those of the participants whose flag is \<open>true\<close>, so
  a participant whose flag is absent or \<open>false\<close> is not in it.
\<close>

theorem listStreamEnabledParticipants_exact:
  "mset (fst (listStreamEnabledParticipants s r))
     = image_mset entry_of (filter_mset consenting (mset (room_of s r)))
   \<and> fst (listStreamEnabledParticipants (s\<lparr>roomAdmins := A\<rparr>) r)
     = fst (listStreamEnabledParticipants s r)
   \<and> (distinct (map fst (room_of s r)) \<longrightarrow>
        e_socketId ` set (fst (listStreamEnabledParticipants s r))
          = {c. \<exists>p. map_get (room_of s r) c = Some p \<and> streamAllowed p = Some True})"
proof (intro conjI impI)
  show "mset (fst (listStreamEnabledParticipants s r))
     = image_mset entry_of (filter_mset consenting (mset (room_of s r)))"
    by (simp add: visible_eq)
  show "fst (listStreamEnabledParticipants (s\<lparr>roomAdmins := A\<rparr>) r)
     = fst (listStreamEnabledParticipants s r)"
    by (simp add: visible_eq room_of_admins_update)
  assume "distinct (map fst (room_of s r))"
  then show "e_socketId ` set (fst (listStreamEnabledParticipants s r))
          = {c. \<exists>p. map_get (room_of s r) c = Some p \<and> streamAllowed p = Some True}"
    using consenting_ids [of "room_of s r"] by (simp add: visible_eq)
qed

lemma room_of_ex_store: "room_of ex_store (JStr ''r1'') = ex_room"
  by (simp add: room_of_def ex_store_def)

theorem listStreamEnabledParticipants_exact_witness:
  "distinct (map fst (room_of ex_store (JStr ''r1'')))
   \<and> e_socketId ` set (fst (listStreamEnabledParticipants ex_store (JStr ''r1'')))
       = {c. \<exists>p. map_get (room_of ex_store (JStr ''r1'')) c = Some p \<and> streamAllowed p = Some True}
   \<and> fst (listStreamEnabledParticipants ex_store (JStr ''r1''))
       = [\<lparr>e_socketId = ''C'', e_userId = JStr ''u3'', e_displayName = JUndefined, e_lastSeen = 30\<rparr>,
          \<lparr>e_socketId = ''E'', e_userId = JStr ''u5'', e_displayName = JStr ''Eve'', e_lastSeen = 30\<rparr>,
          \<lparr>e_socketId = ''A'', e_userId = JStr ''u1'', e_displayName = JStr ''Ann'', e_lastSeen = 10\<rparr>]"
proof -
  have d: "distinct (map fst (room_of ex_store (JStr ''r1'')))"
    by (simp add: room_of_ex_store ex_room_def)
  have v: "fst (listStreamEnabledParticipants ex_store (JStr ''r1''))
       = [\<lparr>e_socketId = ''C'', e_userId = JStr ''u3'', e_displayName = JUndefined, e_lastSeen = 30\<rparr>,
          \<lparr>e_socketId = ''E'', e_userId = JStr ''u5'', e_displayName = JStr ''Eve'', e_lastSeen = 30\<rparr>,
          \<lparr>e_socketId = ''A'', e_userId = JStr ''u1'', e_displayName = JStr ''Ann'', e_lastSeen = 10\<rparr>]"
    by (simp add: listStreamEnabledParticipants_eq room_of_ex_store ex_room_def
          List.map_filter_simps render_def field_def js_sort_def cmp_lastSeen_def or0_def)
  from listStreamEnabledParticipants_exact [of ex_store "JStr ''r1''" "\<lambda>r. None"] d v
  show ?thesis by blast
qed

text \<open>
  Claim C5. The list \<open>listStreamEnabledParticipants\<close> returns is sorted by \<open>lastSeen\<close>,
  latest first: of two entries with different \<open>lastSeen\<close> the later one stands earlier in
  the list; and entries with the same \<open>lastSeen\<close> stand in the order in which the scan of
  the room's map produced them.
\<close>

theorem listStreamEnabledParticipants_sorted:
  "sorted_wrt (\<lambda>a b. e_lastSeen a \<ge> e_lastSeen b) (fst (listStreamEnabledParticipants s r))
   \<and> (\<forall>i j. i < length (fst (listStreamEnabledParticipants s r))
          \<and> j < length (fst (listStreamEnabledParticipants s r))
          \<and> e_lastSeen (fst (listStreamEnabledParticipants s r) ! i)
              < e_lastSeen (fst (listStreamEnabledParticipants s r) ! j)
          \<longrightarrow> j < i)
   \<and> (\<forall>t. filter (\<lambda>e. e_lastSeen e = t) (fst (listStreamEnabledParticipants s r))
          = filter (\<lambda>e. e_lastSeen e = t) (List.map_filter render (room_of s r)))"
proof (intro conjI allI impI)
  let ?res = "fst (listStreamEnabledParticipants s r)"
  let ?scan = "List.map_filter render (room_of s r)"
  have res: "?res = sort_key (\<lambda>e. - e_lastSeen e) ?scan"
    by (simp add: listStreamEnabledParticipants_eq js_sort_cmp_lastSeen)
  have "sorted (map (\<lambda>e. - e_lastSeen e) ?res)"
    unfolding res by (rule sorted_sort_key)
  then show sw: "sorted_wrt (\<lambda>a b. e_lastSeen a \<ge> e_lastSeen b) ?res"
    by (simp add: sorted_map)
  show "j < i"
    if "i < length ?res \<and> j < length ?res \<and> e_lastSeen (?res ! i) < e_lastSeen (?res ! j)"
    for i j
  proof (rule ccontr)
    assume "\<not> j < i"
    with that have "i < j" by (cases "i = j") auto
    with sw that have "e_lastSeen (?res ! i) \<ge> e_lastSeen (?res ! j)"
      by (simp add: sorted_wrt_iff_nth_less)
    with that show False by simp
  qed
  show "filter (\<lambda>e. e_lastSeen e = t) ?res = filter (\<lambda>e. e_lastSeen e = t) ?scan" for t
    unfolding res using sort_key_stable [of "\<lambda>e. - e_lastSeen e" "- t" ?scan] by simp
qed

theorem listStreamEnabledParticipants_sorted_witness:
  "(1::nat) < length (fst (listStreamEnabledParticipants ex_store (JStr ''r1'')))
   \<and> 2 < length (fst (listStreamEnabledParticipants ex_store (JStr ''r1'')))
   \<and> e_lastSeen (fst (listStreamEnabledParticipants ex_store (JStr ''r1'')) ! 2)
       < e_lastSeen (fst (listStreamEnabledParticipants ex_store (JStr ''r1'')) ! 1)
   \<and> map e_socketId (fst (listStreamEnabledParticipants ex_store (JStr ''r1'')))
       = [''C'', ''E'', ''A'']
   \<and> map e_socketId (List.map_filter render (room_of ex_store (JStr ''r1'')))
       = [''A'', ''C'', ''E'']
   \<and> map e_socketId (filter (\<lambda>e. e_lastSeen e = 30)
         (fst (listStreamEnabledParticipants ex_store (JStr ''r1''))))
       = [''C'', ''E'']"
proof -
  have v: "fst (listStreamEnabledParticipants ex_store (JStr ''r1''))
       = [\<lparr>e_socketId = ''C'', e_userId = JStr ''u3'', e_displayName = JUndefined, e_lastSeen = 30\<rparr>,
          \<lparr>e_socketId = ''E'', e_userId = JStr ''u5'', e_displayName = JStr ''Eve'', e_lastSeen = 30\<rparr>,
          \<lparr>e_socketId = ''A'', e_userId = JStr ''u1'', e_displayName = JStr ''Ann'', e_lastSeen = 10\<rparr>]"
    by (simp add: listStreamEnabledParticipants_eq room_of_ex_store ex_room_def
          List.map_filter_simps render_def field_def js_sort_def cmp_lastSeen_def or0_def)
  have m: "map e_socketId (List.map_filter render (room_of ex_store (JStr ''r1'')))
       = [''A'', ''C'', ''E'']"
    by (simp add: room_of_ex_store ex_room_def List.map_filter_simps render_def)
  from listStreamEnabledParticipants_sorted [of ex_store "JStr ''r1''"] v m
  show ?thesis by simp
qed


text \<open>
  Claim C9, as amended. Called on a room the store does not hold, \<open>listAdmins\<close> and
  \<open>listStreamEnabledParticipants\<close> are not read-only: each returns the empty list together
  with a store that differs from the one it was given, in which the room has an empty
  participant map and an empty admin set; \<open>broadcastAdminUpdate\<close> does the same when the
  room id converts to a string, and throws with the store as it was when the room id does
  not. On a room the store holds the two queries return the store they were given, and so
  they do where the handlers call them after \<open>upsertParticipant\<close> or after the
  \<open>ensureRoom\<close> of \<open>admin:subscribe\<close>. In every state a run reaches from the empty server
  the room a \<open>socket.data\<close> names is in both maps, so the queries of \<open>ping\<close> and
  \<open>disconnect\<close> create nothing: a room is new after an event only if the event is a
  \<open>join\<close>, a \<open>stream:consent\<close> or an \<open>admin:subscribe\<close> that names it.
\<close>

theorem query_creates_room:
  "(rooms s r = None \<and> roomAdmins s r = None \<longrightarrow>
        listAdmins s r = ([], ensureRoom s r)
      \<and> listStreamEnabledParticipants s r = ([], ensureRoom s r)
      \<and> ensureRoom s r \<noteq> s
      \<and> rooms (ensureRoom s r) r = Some []
      \<and> roomAdmins (ensureRoom s r) r = Some []
      \<and> (convertible r \<longrightarrow>
            broadcastAdminUpdate s r
              = Inr (ensureRoom s r,
                     [Emit (To (JStr (''admin:'' @ str_of r))) ''room:update'' (RoomUpdate [])]))
      \<and> (\<not> convertible r \<longrightarrow> broadcastAdminUpdate s r = Inl (TypeError, s, [])))
   \<and> (rooms s r \<noteq> None \<and> roomAdmins s r \<noteq> None \<longrightarrow>
        snd (listAdmins s r) = s \<and> snd (listStreamEnabledParticipants s r) = s)
   \<and> snd (listAdmins (upsertParticipant s r c pt now) r) = upsertParticipant s r c pt now
   \<and> snd (listStreamEnabledParticipants (upsertParticipant s r c pt now) r)
        = upsertParticipant s r c pt now
   \<and> snd (listStreamEnabledParticipants (subscribed s r c) r) = subscribed s r c
   \<and> (run init ocs = Inr (st, acts) \<and> truthy (d_roomId (sockets st c)) \<longrightarrow>
        rooms (store st) (d_roomId (sockets st c)) \<noteq> None
      \<and> roomAdmins (store st) (d_roomId (sockets st c)) \<noteq> None)
   \<and> (run init ocs = Inr (st, acts) \<and> step st (c, now, ev) = Inr (st', acts')
      \<and> ((rooms (store st) r' = None \<and> rooms (store st') r' \<noteq> None)
         \<or> (roomAdmins (store st) r' = None \<and> roomAdmins (store st') r' \<noteq> None)) \<longrightarrow>
        (\<exists>p. (ev = Join p \<or> ev = StreamConsent p \<or> ev = AdminSubscribe p)
             \<and> js_prop p ''roomId'' = r'))"
proof (intro conjI impI)
  assume a: "rooms s r = None \<and> roomAdmins s r = None"
  then have e: "rooms (ensureRoom s r) r = Some []" "roomAdmins (ensureRoom s r) r = Some []"
    by (simp_all add: rooms_ensureRoom roomAdmins_ensureRoom)
  from a have v: "room_of s r = []" "admins_of s r = []"
    by (simp_all add: room_of_def admins_of_def)
  show "rooms (ensureRoom s r) r = Some []" "roomAdmins (ensureRoom s r) r = Some []"
    by (rule e)+
  from e a show "ensureRoom s r \<noteq> s" by auto
  show "listAdmins s r = ([], ensureRoom s r)"
    by (simp add: listAdmins_eq v)
  show l: "listStreamEnabledParticipants s r = ([], ensureRoom s r)"
    by (simp add: listStreamEnabledParticipants_eq v List.map_filter_simps js_sort_def)
  show "broadcastAdminUpdate s r
          = Inr (ensureRoom s r,
                 [Emit (To (JStr (''admin:'' @ str_of r))) ''room:update'' (RoomUpdate [])])"
    if "convertible r"
    using that by (simp add: broadcastAdminUpdate_eq l)
  show "broadcastAdminUpdate s r = Inl (TypeError, s, [])" if "\<not> convertible r"
    using that by (rule broadcastAdminUpdate_throws)
next
  assume "rooms s r \<noteq> None \<and> roomAdmins s r \<noteq> None"
  then show "snd (listAdmins s r) = s" "snd (listStreamEnabledParticipants s r) = s"
    by (simp_all add: query_present del: not_None_eq)
next
  show "snd (listAdmins (upsertParticipant s r c pt now) r) = upsertParticipant s r c pt now"
    by (simp add: listAdmins_eq ensureRoom_upsertParticipant)
  show "snd (listStreamEnabledParticipants (upsertParticipant s r c pt now) r)
          = upsertParticipant s r c pt now"
    by (simp add: listStreamEnabledParticipants_eq ensureRoom_upsertParticipant)
  show "snd (listStreamEnabledParticipants (subscribed s r c) r) = subscribed s r c"
    by (simp add: listStreamEnabledParticipants_eq ensureRoom_subscribed)
next
  assume "run init ocs = Inr (st, acts) \<and> truthy (d_roomId (sockets st c))"
  with run_labels_present [of init ocs st acts] labels_present_init
  show "rooms (store st) (d_roomId (sockets st c)) \<noteq> None"
    "roomAdmins (store st) (d_roomId (sockets st c)) \<noteq> None"
    by (simp_all add: labels_present_def del: not_None_eq)
next
  assume "run init ocs = Inr (st, acts) \<and> step st (c, now, ev) = Inr (st', acts')
      \<and> ((rooms (store st) r' = None \<and> rooms (store st') r' \<noteq> None)
         \<or> (roomAdmins (store st) r' = None \<and> roomAdmins (store st') r' \<noteq> None))"
  then show "\<exists>p. (ev = Join p \<or> ev = StreamConsent p \<or> ev = AdminSubscribe p)
             \<and> js_prop p ''roomId'' = r'"
    using step_new_room [of ocs st acts c now ev st' acts' r'] by blast
qed

theorem query_creates_room_witness:
  "rooms empty_store (JStr ''r9'') = None \<and> roomAdmins empty_store (JStr ''r9'') = None
   \<and> convertible (JStr ''r9'')
   \<and> listAdmins empty_store (JStr ''r9'') = ([], ensureRoom empty_store (JStr ''r9''))
   \<and> listStreamEnabledParticipants empty_store (JStr ''r9'')
       = ([], ensureRoom empty_store (JStr ''r9''))
   \<and> ensureRoom empty_store (JStr ''r9'') \<noteq> empty_store
   \<and> rooms (ensureRoom empty_store (JStr ''r9'')) (JStr ''r9'') = Some []
   \<and> roomAdmins (ensureRoom empty_store (JStr ''r9'')) (JStr ''r9'') = Some []
   \<and> broadcastAdminUpdate empty_store (JStr ''r9'')
       = Inr (ensureRoom empty_store (JStr ''r9''),
              [Emit (To (JStr ''admin:r9'')) ''room:update'' (RoomUpdate [])])
   \<and> rooms ex_store (JStr ''r1'') \<noteq> None \<and> roomAdmins ex_store (JStr ''r1'') \<noteq> None
   \<and> snd (listAdmins ex_store (JStr ''r1'')) = ex_store
   \<and> snd (listStreamEnabledParticipants ex_store (JStr ''r1'')) = ex_store
   \<and> (\<exists>st acts. run init [(''A'', 1, Join (ex_join ''r1'' ''u1''))] = Inr (st, acts)
         \<and> truthy (d_roomId (sockets st ''A''))
         \<and> rooms (store st) (d_roomId (sockets st ''A'')) \<noteq> None
         \<and> roomAdmins (store st) (d_roomId (sockets st ''A'')) \<noteq> None)"
proof -
  have h: "rooms empty_store (JStr ''r9'') = None \<and> roomAdmins empty_store (JStr ''r9'') = None"
    by (simp add: empty_store_def)
  have cv: "convertible (JStr ''r9'')" by (rule convertible_primitive)
  have g: "rooms ex_store (JStr ''r1'') \<noteq> None \<and> roomAdmins ex_store (JStr ''r1'') \<noteq> None"
    by (simp add: ex_store_def)
  from step_join [OF ex_join_props(1) ex_join_props(2) _ convertible_primitive(5),
      of "''r1''" "''u1''" init "''A''" 1]
  obtain st acts where 1: "step init (''A'', 1, Join (ex_join ''r1'' ''u1'')) = Inr (st, acts)"
    and 2: "sockets st = (sockets init)(''A'' := (sockets init ''A'')\<lparr>d_role := Some Participant,
             d_roomId := JStr ''r1'', d_userId := js_prop (ex_join ''r1'' ''u1'') ''userId''\<rparr>)"
    by (auto simp: ex_join_props)
  from 1 have r: "run init [(''A'', 1, Join (ex_join ''r1'' ''u1''))] = Inr (st, acts)"
    by simp
  from 2 have t: "truthy (d_roomId (sockets st ''A''))" by simp
  let ?pt = "\<lparr>p_userId = None, p_displayName = None, p_streamAllowed = None\<rparr>"
  note a = query_creates_room [of empty_store "JStr ''r9''" "''A''" ?pt 1
      "[]" init "[]" Ping init "[]" "JStr ''r9''"]
  note b = query_creates_room [of ex_store "JStr ''r1''" "''A''" ?pt 1
      "[(''A'', 1, Join (ex_join ''r1'' ''u1''))]" st acts Ping st "[]" "JStr ''r1''"]
  from a h cv have "listAdmins empty_store (JStr ''r9'') = ([], ensureRoom empty_store (JStr ''r9''))
   \<and> listStreamEnabledParticipants empty_store (JStr ''r9'')
       = ([], ensureRoom empty_store (JStr ''r9''))
   \<and> ensureRoom empty_store (JStr ''r9'') \<noteq> empty_store
   \<and> rooms (ensureRoom empty_store (JStr ''r9'')) (JStr ''r9'') = Some []
   \<and> roomAdmins (ensureRoom empty_store (JStr ''r9'')) (JStr ''r9'') = Some []
   \<and> broadcastAdminUpdate empty_store (JStr ''r9'')
       = Inr (ensureRoom empty_store (JStr ''r9''),
              [Emit (To (JStr ''admin:r9'')) ''room:update'' (RoomUpdate [])])"
    by (simp add: str_of_JStr)
  moreover from b g have "snd (listAdmins ex_store (JStr ''r1'')) = ex_store
   \<and> snd (listStreamEnabledParticipants ex_store (JStr ''r1'')) = ex_store"
    by blast
  moreover from b r t have "rooms (store st) (d_roomId (sockets st ''A'')) \<noteq> None
         \<and> roomAdmins (store st) (d_roomId (sockets st ''A'')) \<noteq> None"
    by blast
  ultimately show ?thesis using h cv g r t by blast
qed

text \<open>
  Claim C9, as it was stated, adds that a room can come into existence merely by being
  queried, for one by the admin broadcast after a \<open>disconnect\<close>. It cannot: in no state a
  run reaches from the empty server does a \<open>disconnect\<close> that returns leave a room that was
  not there before, in either map.
\<close>

theorem disconnect_creates_no_room:
  "\<not> (\<exists>ocs st acts c now st' acts' r.
         run init ocs = Inr (st, acts) \<and> step st (c, now, Disconnect) = Inr (st', acts')
       \<and> ((rooms (store st) r = None \<and> rooms (store st') r \<noteq> None)
          \<or> (roomAdmins (store st) r = None \<and> roomAdmins (store st') r \<noteq> None)))"
proof
  assume "\<exists>ocs st acts c now st' acts' r.
         run init ocs = Inr (st, acts) \<and> step st (c, now, Disconnect) = Inr (st', acts')
       \<and> ((rooms (store st) r = None \<and> rooms (store st') r \<noteq> None)
          \<or> (roomAdmins (store st) r = None \<and> roomAdmins (store st') r \<noteq> None))"
  then obtain ocs st acts c now st' acts' r where
    "run init ocs = Inr (st, acts)" and "step st (c, now, Disconnect) = Inr (st', acts')"
    and "(rooms (store st) r = None \<and> rooms (store st') r \<noteq> None)
          \<or> (roomAdmins (store st) r = None \<and> roomAdmins (store st') r \<noteq> None)"
    by blast
  from step_new_room [OF this] show False by simp
qed

section \<open>The protocol\<close>

text \<open>
  Claim C6. A connection sends \<open>stream:consent\<close> three times for the same room, each with
  a non-empty \<open>roomId\<close> and \<open>userId\<close>, the last with \<open>allow\<close> true (the first two with
  any \<open>allow\<close>, so with true and then false). The room id converts to a string, as every
  primitive does. The three are handled without an exception,
  the connection's participant object in that room then has \<open>streamAllowed\<close> \<open>true\<close>, and
  the state is the very state the third event alone would have produced: the first two
  toggles leave nothing behind.
\<close>

theorem consent_last_write_wins:
  assumes "\<not> nullish p1" and "\<not> nullish p2" and "\<not> nullish p3"
    and "truthy r" and "js_prop p1 ''roomId'' = r" and "js_prop p2 ''roomId'' = r"
    and "js_prop p3 ''roomId'' = r"
    and "truthy (js_prop p1 ''userId'')" and "truthy (js_prop p2 ''userId'')"
    and "truthy (js_prop p3 ''userId'')"
    and "truthy (js_prop p3 ''allow'')"
    and "convertible r"
  shows "\<exists>st' acts acts3.
           run st [(c, t1, StreamConsent p1), (c, t2, StreamConsent p2), (c, t3, StreamConsent p3)]
             = Inr (st', acts)
         \<and> (\<exists>rec. map_get (room_of (store st') r) c = Some rec \<and> streamAllowed rec = Some True)
         \<and> step st (c, t3, StreamConsent p3) = Inr (st', acts3)"
proof -
  have a3: "truthy (js_prop p3 ''allow'') = True"
    using assms(11) by simp
  from step_stream_consent [OF assms(1,5,4,12,8) refl, of st c t1]
  obtain st1 a1 where 1: "step st (c, t1, StreamConsent p1) = Inr (st1, a1)"
    and s1: "store st1 = upsertParticipant (store st) r c
             \<lparr>p_userId = Some (js_prop p1 ''userId''), p_displayName = None,
              p_streamAllowed = Some (truthy (js_prop p1 ''allow''))\<rparr> t1"
            "sockets st1 = sockets st"
    by blast
  from step_stream_consent [OF assms(2,6,4,12,9) refl, of st1 c t2]
  obtain st2 a2 where 2: "step st1 (c, t2, StreamConsent p2) = Inr (st2, a2)"
    and s2: "store st2 = upsertParticipant (store st1) r c
             \<lparr>p_userId = Some (js_prop p2 ''userId''), p_displayName = None,
              p_streamAllowed = Some (truthy (js_prop p2 ''allow''))\<rparr> t2"
            "sockets st2 = sockets st1"
    by blast
  from step_stream_consent [OF assms(3,7,4,12,10) a3, of st2 c t3]
  obtain st3 a3 where 3: "step st2 (c, t3, StreamConsent p3) = Inr (st3, a3)"
    and s3: "store st3 = upsertParticipant (store st2) r c
             \<lparr>p_userId = Some (js_prop p3 ''userId''), p_displayName = None,
              p_streamAllowed = Some True\<rparr> t3"
            "sockets st3 = sockets st2"
    by blast
  from step_stream_consent [OF assms(3,7,4,12,10) a3, of st c t3]
  obtain st3' a3' where 4: "step st (c, t3, StreamConsent p3) = Inr (st3', a3')"
    and s4: "store st3' = upsertParticipant (store st) r c
             \<lparr>p_userId = Some (js_prop p3 ''userId''), p_displayName = None,
              p_streamAllowed = Some True\<rparr> t3"
            "sockets st3' = sockets st"
    by blast
  have "store st3 = store st3'"
    by (simp add: s1 s2 s3 s4 upsertParticipant_twice)
  with s1 s2 s3 s4 have eq: "st3 = st3'" by (intro server.equality) simp_all
  have rec: "\<exists>rec. map_get (room_of (store st3) r) c = Some rec \<and> streamAllowed rec = Some True"
    by (simp add: s3 room_of_upsertParticipant map_get_map_set spread_def)
  from 1 2 3 have "run st [(c, t1, StreamConsent p1), (c, t2, StreamConsent p2),
      (c, t3, StreamConsent p3)] = Inr (st3, a1 @ a2 @ a3)"
    by simp
  with rec 4 eq show ?thesis by blast
qed

theorem consent_last_write_wins_witness:
  "\<not> nullish (ex_consent ''r1'' ''u1'' True) \<and> \<not> nullish (ex_consent ''r1'' ''u1'' False)
   \<and> truthy (JStr ''r1'') \<and> truthy (JStr ''u1'') \<and> truthy (JBool True)
   \<and> convertible (JStr ''r1'')
   \<and> (\<exists>st' acts acts3.
         run init [(''A'', 1, StreamConsent (ex_consent ''r1'' ''u1'' True)),
                   (''A'', 2, StreamConsent (ex_consent ''r1'' ''u1'' False)),
                   (''A'', 3, StreamConsent (ex_consent ''r1'' ''u1'' True))] = Inr (st', acts)
       \<and> (\<exists>rec. map_get (room_of (store st') (JStr ''r1'')) ''A'' = Some rec
                 \<and> streamAllowed rec = Some True)
       \<and> step init (''A'', 3, StreamConsent (ex_consent ''r1'' ''u1'' True)) = Inr (st', acts3))"
proof -
  have t: "truthy (JStr ''r1'')" "truthy (JStr ''u1'')" "truthy (JBool True)" by simp_all
  have u: "truthy (js_prop (ex_consent ''r1'' ''u1'' b) ''userId'')" for b
    by (simp add: ex_consent_props)
  have a: "truthy (js_prop (ex_consent ''r1'' ''u1'' True) ''allow'')"
    by (simp add: ex_consent_props)
  note w = consent_last_write_wins [of "ex_consent ''r1'' ''u1'' True"
      "ex_consent ''r1'' ''u1'' False" "ex_consent ''r1'' ''u1'' True" "JStr ''r1''"
      init "''A''" 1 2 3,
      OF ex_consent_props(1) ex_consent_props(1) ex_consent_props(1) t(1)
      ex_consent_props(2) ex_consent_props(2) ex_consent_props(2) u u u a
      convertible_primitive(5)]
  from t w ex_consent_props(1) convertible_primitive(5) show ?thesis by blast
qed


text \<open>
  Claim C7. A connection sends \<open>join\<close> twice for the same room, each with a non-empty
  \<open>roomId\<close> and \<open>userId\<close>; the room id converts to a string, as every primitive does. After the second \<open>join\<close> the room has as many participants as
  after the first, under the same connection ids in the same order; the connection's one
  object is overwritten with the second \<open>userId\<close> and \<open>displayName\<close> and the new
  \<open>lastSeen\<close>, and keeps its \<open>streamAllowed\<close>.
\<close>

theorem rejoin_overwrites:
  assumes "\<not> nullish p1" and "\<not> nullish p2"
    and "truthy r" and "js_prop p1 ''roomId'' = r" and "js_prop p2 ''roomId'' = r"
    and "truthy (js_prop p1 ''userId'')" and "truthy (js_prop p2 ''userId'')"
    and "convertible r"
  shows "\<exists>st1 a1 st2 a2 rec1.
           step st (c, t1, Join p1) = Inr (st1, a1)
         \<and> step st1 (c, t2, Join p2) = Inr (st2, a2)
         \<and> length (room_of (store st2) r) = length (room_of (store st1) r)
         \<and> map fst (room_of (store st2) r) = map fst (room_of (store st1) r)
         \<and> map_get (room_of (store st1) r) c = Some rec1
         \<and> map_get (room_of (store st2) r) c
             = Some \<lparr>userId = Some (js_prop p2 ''userId''),
                     displayName = Some (js_or (js_prop p2 ''displayName'') (js_prop p2 ''userId'')),
                     streamAllowed = streamAllowed rec1, lastSeen = t2\<rparr>"
proof -
  from step_join [OF assms(1,4,3,8,6), of st c t1]
  obtain st1 a1 where 1: "step st (c, t1, Join p1) = Inr (st1, a1)"
    and s1: "store st1 = upsertParticipant (store st) r c
             \<lparr>p_userId = Some (js_prop p1 ''userId''),
              p_displayName = Some (js_or (js_prop p1 ''displayName'') (js_prop p1 ''userId'')),
              p_streamAllowed = None\<rparr> t1"
    by blast
  from step_join [OF assms(2,5,3,8,7), of st1 c t2]
  obtain st2 a2 where 2: "step st1 (c, t2, Join p2) = Inr (st2, a2)"
    and s2: "store st2 = upsertParticipant (store st1) r c
             \<lparr>p_userId = Some (js_prop p2 ''userId''),
              p_displayName = Some (js_or (js_prop p2 ''displayName'') (js_prop p2 ''userId'')),
              p_streamAllowed = None\<rparr> t2"
    by blast
  obtain rec1 where r1: "map_get (room_of (store st1) r) c = Some rec1"
    by (simp add: s1 room_of_upsertParticipant map_get_map_set)
  then have k: "c \<in> fst ` set (room_of (store st1) r)"
    using map_get_None_iff [of "room_of (store st1) r" c] by auto
  have keys: "map fst (room_of (store st2) r) = map fst (room_of (store st1) r)"
    using k by (simp add: s2 room_of_upsertParticipant keys_map_set)
  from keys have len: "length (room_of (store st2) r) = length (room_of (store st1) r)"
    using length_map [of fst "room_of (store st2) r"] length_map [of fst "room_of (store st1) r"]
    by simp
  have r2: "map_get (room_of (store st2) r) c
             = Some \<lparr>userId = Some (js_prop p2 ''userId''),
                     displayName = Some (js_or (js_prop p2 ''displayName'') (js_prop p2 ''userId'')),
                     streamAllowed = streamAllowed rec1, lastSeen = t2\<rparr>"
    using r1 by (simp add: s2 room_of_upsertParticipant map_get_map_set spread_def)
  from 1 2 len keys r1 r2 show ?thesis by blast
qed

theorem rejoin_overwrites_witness:
  "\<not> nullish (ex_join ''r1'' ''u1'') \<and> \<not> nullish (ex_join ''r1'' ''u2'')
   \<and> truthy (JStr ''r1'') \<and> truthy (JStr ''u1'') \<and> truthy (JStr ''u2'')
   \<and> convertible (JStr ''r1'')
   \<and> (\<exists>st1 a1 st2 a2 rec1.
         step init (''A'', 1, Join (ex_join ''r1'' ''u1'')) = Inr (st1, a1)
       \<and> step st1 (''A'', 2, Join (ex_join ''r1'' ''u2'')) = Inr (st2, a2)
       \<and> length (room_of (store st2) (JStr ''r1'')) = length (room_of (store st1) (JStr ''r1''))
       \<and> map fst (room_of (store st2) (JStr ''r1'')) = map fst (room_of (store st1) (JStr ''r1''))
       \<and> map_get (room_of (store st1) (JStr ''r1'')) ''A'' = Some rec1
       \<and> map_get (room_of (store st2) (JStr ''r1'')) ''A''
           = Some \<lparr>userId = Some (JStr ''u2''), displayName = Some (JStr ''u2''),
                   streamAllowed = streamAllowed rec1, lastSeen = 2\<rparr>)"
proof -
  have t: "truthy (JStr ''r1'')" "truthy (JStr ''u1'')" "truthy (JStr ''u2'')" by simp_all
  have u: "truthy (js_prop (ex_join ''r1'' x) ''userId'') = truthy (JStr x)" for x
    by (simp add: ex_join_props)
  note w = rejoin_overwrites [of "ex_join ''r1'' ''u1''" "ex_join ''r1'' ''u2''" "JStr ''r1''"
      init "''A''" 1 2,
      OF ex_join_props(1) ex_join_props(1) t(1) ex_join_props(2)
      ex_join_props(2) t(2) [folded u] t(3) [folded u] convertible_primitive(5)]
  have "js_or (js_prop (ex_join ''r1'' ''u2'') ''displayName'')
          (js_prop (ex_join ''r1'' ''u2'') ''userId'') = JStr ''u2''"
    by (simp add: ex_join_props js_or_def)
  with w have w': "\<exists>st1 a1 st2 a2 rec1.
         step init (''A'', 1, Join (ex_join ''r1'' ''u1'')) = Inr (st1, a1)
       \<and> step st1 (''A'', 2, Join (ex_join ''r1'' ''u2'')) = Inr (st2, a2)
       \<and> length (room_of (store st2) (JStr ''r1'')) = length (room_of (store st1) (JStr ''r1''))
       \<and> map fst (room_of (store st2) (JStr ''r1'')) = map fst (room_of (store st1) (JStr ''r1''))
       \<and> map_get (room_of (store st1) (JStr ''r1'')) ''A'' = Some rec1
       \<and> map_get (room_of (store st2) (JStr ''r1'')) ''A''
           = Some \<lparr>userId = Some (JStr ''u2''), displayName = Some (JStr ''u2''),
                   streamAllowed = streamAllowed rec1, lastSeen = 2\<rparr>"
    by (simp add: ex_join_props)
  from t w' ex_join_props(1) convertible_primitive(5) show ?thesis by blast
qed


text \<open>
  Claim C8. A relay event (\<open>webrtc:offer\<close>, \<open>webrtc:answer\<close>, \<open>webrtc:ice\<close>) that carries a
  payload leaves the whole state as it is (both maps of the store and the \<open>socket.data\<close> of
  every connection) and makes exactly one send: to \<open>to\<close>, under the same event name, with
  \<open>from\<close> the sender's connection id and the \<open>sdp\<close> (or \<open>candidate\<close>) of the payload.
\<close>

theorem relay_pass_through:
  assumes "\<not> nullish p"
  shows "step st (c, now, WebrtcOffer p)
           = Inr (st, [Emit (To (js_prop p ''to'')) ''webrtc:offer'' (Sdp c (js_prop p ''sdp''))])
       \<and> step st (c, now, WebrtcAnswer p)
           = Inr (st, [Emit (To (js_prop p ''to'')) ''webrtc:answer'' (Sdp c (js_prop p ''sdp''))])
       \<and> step st (c, now, WebrtcIce p)
           = Inr (st, [Emit (To (js_prop p ''to'')) ''webrtc:ice''
                         (Candidate c (js_prop p ''candidate''))])"
  using assms
  by (simp add: step_def on_webrtc_offer_def on_webrtc_answer_def on_webrtc_ice_def)

theorem relay_pass_through_witness:
  "\<not> nullish ex_offer
   \<and> step init (''A'', 7, WebrtcOffer ex_offer)
       = Inr (init, [Emit (To (JStr ''B'')) ''webrtc:offer''
                       (Sdp ''A'' (JObj 5 [(''type'', JStr ''offer'')]))])
   \<and> step init (''A'', 7, WebrtcIce ex_offer)
       = Inr (init, [Emit (To (JStr ''B'')) ''webrtc:ice'' (Candidate ''A'' JUndefined)])"
proof -
  have n: "\<not> nullish ex_offer" by (simp add: ex_offer_def)
  have p: "js_prop ex_offer ''to'' = JStr ''B''"
    "js_prop ex_offer ''sdp'' = JObj 5 [(''type'', JStr ''offer'')]"
    "js_prop ex_offer ''candidate'' = JUndefined"
    by (simp_all add: ex_offer_def)
  from relay_pass_through [of ex_offer init "''A''" 7, OF n] n show ?thesis by (simp add: p)
qed


text \<open>
  Claim C4. After \<open>admin:subscribe\<close> with a non-empty \<open>roomId\<close> that converts to a string
  (as every primitive does) the connection's id is in the admin set of that room, and it
  is still there after any sequence of events, from any connections, that does not contain
  a \<open>disconnect\<close> of this connection. (The events are those of the datatype \<open>event\<close>: the
  source registers no handler that unsubscribes. With a room id that does not convert the
  handler adds the id and then throws: lemma \<open>on_admin_subscribe_throws_late\<close>.)
\<close>

theorem admin_kept_until_own_disconnect:
  assumes "\<not> nullish p" and "truthy (js_prop p ''roomId'')"
    and "convertible (js_prop p ''roomId'')"
    and "\<forall>oc \<in> set ocs. \<not> (fst oc = c \<and> snd (snd oc) = Disconnect)"
  shows "\<exists>st1 a1. step st (c, now, AdminSubscribe p) = Inr (st1, a1)
           \<and> c \<in> set (admins_of (store st1) (js_prop p ''roomId''))
           \<and> (\<forall>st2 a2. run st1 ocs = Inr (st2, a2)
                 \<longrightarrow> c \<in> set (admins_of (store st2) (js_prop p ''roomId'')))"
proof -
  let ?r = "js_prop p ''roomId''"
  let ?d = "(sockets st c)\<lparr>d_role := Some Admin, d_roomId := ?r\<rparr>"
  let ?st1 = "\<lparr>store = subscribed (store st) ?r c, sockets = (sockets st)(c := ?d)\<rparr>"
  have 1: "step st (c, now, AdminSubscribe p) = Inr (?st1,
         [SocketJoin (''admin:'' @ str_of ?r),
          Emit (ToSocket c) ''room:update''
            (RoomUpdate (fst (listStreamEnabledParticipants (store st) ?r))),
          Emit (To (JStr (''room:'' @ str_of ?r))) ''admin:online'' (AdminOnline c)])"
    using assms(1,2,3) by (simp add: step_def on_admin_subscribe_valid)
  have 2: "c \<in> set (admins_of (store ?st1) ?r)"
    by (simp add: admins_of_subscribed set_set_add)
  have "c \<in> set (admins_of (store st2) ?r)" if "run ?st1 ocs = Inr (st2, a2)" for st2 a2
    using run_admins_kept [OF that 2] assms(4) by simp
  with 1 2 show ?thesis by blast
qed

theorem admin_kept_until_own_disconnect_witness:
  "\<not> nullish (ex_subscribe ''r1'') \<and> truthy (JStr ''r1'') \<and> convertible (JStr ''r1'')
   \<and> (\<exists>st1 a1 st2 a2.
         step init (''X'', 1, AdminSubscribe (ex_subscribe ''r1'')) = Inr (st1, a1)
       \<and> run st1 ex_trace = Inr (st2, a2)
       \<and> ''X'' \<in> set (admins_of (store st1) (JStr ''r1''))
       \<and> ''X'' \<in> set (admins_of (store st2) (JStr ''r1'')))"
proof -
  have t: "truthy (JStr ''r1'')" by simp
  have cv: "convertible (JStr ''r1'')" by (rule convertible_primitive)
  have r: "truthy (js_prop (ex_subscribe ''r1'') ''roomId'')"
    by (simp add: ex_subscribe_props)
  have q: "\<forall>oc \<in> set ex_trace. \<not> (fst oc = ''X'' \<and> snd (snd oc) = Disconnect)"
    by (simp add: ex_trace_def)
  from admin_kept_until_own_disconnect [of "ex_subscribe ''r1''" ex_trace "''X''" init 1,
      OF ex_subscribe_props(1) r ex_convertible(3) q]
  obtain st1 a1 where 1: "step init (''X'', 1, AdminSubscribe (ex_subscribe ''r1'')) = Inr (st1, a1)"
    and 2: "''X'' \<in> set (admins_of (store st1) (JStr ''r1''))"
    and 3: "\<And>st2 a2. run st1 ex_trace = Inr (st2, a2)
                \<Longrightarrow> ''X'' \<in> set (admins_of (store st2) (JStr ''r1''))"
    by (auto simp: ex_subscribe_props)
  from step_labels_convert [OF 1 labels_convert_init] have "labels_convert st1" .
  from run_total [OF this ex_trace_well_formed]
  obtain st2 a2 where 4: "run st1 ex_trace = Inr (st2, a2)" by blast
  from 3 [OF 4] 1 2 4 t cv ex_subscribe_props(1) [of "''r1''"] show ?thesis by blast
qed

text \<open>
  Claim C10. A connection whose \<open>socket.data.roomId\<close> is unset (it has sent neither \<open>join\<close>
  nor \<open>admin:subscribe\<close>) sends \<open>stream:consent\<close> with a non-empty \<open>userId\<close> and a
  non-empty \<open>roomId\<close> that converts to a string (as every primitive does). The handler
  leaves every \<open>socket.data\<close> as it was and puts into that room the connection's participant
  object: the \<open>userId\<close> and the consent of the payload, the time of the event, and the
  \<open>displayName\<close> of the object the connection had there before, if any. A \<open>disconnect\<close> of
  the connection then changes nothing and sends nothing. After any later events in which
  the connection itself sends no \<open>join\<close> and no \<open>admin:subscribe\<close> (it may disconnect,
  other connections may send anything) an object of the connection is still in the room and
  a \<open>disconnect\<close> is still without effect; where the connection sends no \<open>stream:consent\<close>
  either, the object is the one the handler put there.
\<close>

theorem consent_only_record_persists:
  assumes "\<not> truthy (d_roomId (sockets st c))"
    and "\<not> nullish p" and "js_prop p ''roomId'' = r" and "truthy r" and "convertible r"
    and "truthy (js_prop p ''userId'')"
    and "\<forall>oc \<in> set ocs. fst oc = c \<longrightarrow> \<not> writes_data (snd (snd oc))"
  shows "\<exists>st1 a1.
           step st (c, t, StreamConsent p) = Inr (st1, a1)
         \<and> sockets st1 = sockets st
         \<and> map_get (room_of (store st1) r) c
             = Some \<lparr>userId = Some (js_prop p ''userId''),
                     displayName = (case map_get (room_of (store st) r) c of
                                      None \<Rightarrow> None | Some q \<Rightarrow> displayName q),
                     streamAllowed = Some (truthy (js_prop p ''allow'')), lastSeen = t\<rparr>
         \<and> step st1 (c, t', Disconnect) = Inr (st1, [])
         \<and> (\<forall>st2 a2. run st1 ocs = Inr (st2, a2) \<longrightarrow>
               map_get (room_of (store st2) r) c \<noteq> None
               \<and> step st2 (c, t', Disconnect) = Inr (st2, [])
               \<and> ((\<forall>oc \<in> set ocs. fst oc = c \<longrightarrow> \<not> names_room (snd (snd oc))) \<longrightarrow>
                    map_get (room_of (store st2) r) c = map_get (room_of (store st1) r) c))"
proof -
  from step_stream_consent [OF assms(2,3,4,5,6) refl, of st c t]
  obtain st1 a1 where 1: "step st (c, t, StreamConsent p) = Inr (st1, a1)"
    and s1: "store st1 = upsertParticipant (store st) r c
             \<lparr>p_userId = Some (js_prop p ''userId''), p_displayName = None,
              p_streamAllowed = Some (truthy (js_prop p ''allow''))\<rparr> t"
            "sockets st1 = sockets st"
    by blast
  have rec: "map_get (room_of (store st1) r) c
             = Some \<lparr>userId = Some (js_prop p ''userId''),
                     displayName = (case map_get (room_of (store st) r) c of
                                      None \<Rightarrow> None | Some q \<Rightarrow> displayName q),
                     streamAllowed = Some (truthy (js_prop p ''allow'')), lastSeen = t\<rparr>"
    by (simp add: s1 room_of_upsertParticipant map_get_map_set spread_def)
  then have present: "map_get (room_of (store st1) r) c \<noteq> None" by simp
  from assms(1) s1 have q: "\<not> truthy (d_roomId (sockets st1 c))" by simp
  have later: "map_get (room_of (store st2) r) c \<noteq> None
               \<and> step st2 (c, t', Disconnect) = Inr (st2, [])
               \<and> ((\<forall>oc \<in> set ocs. fst oc = c \<longrightarrow> \<not> names_room (snd (snd oc))) \<longrightarrow>
                    map_get (room_of (store st2) r) c = map_get (room_of (store st1) r) c)"
    if "run st1 ocs = Inr (st2, a2)" for st2 a2
    using run_own_quiet [OF that assms(7) q present] run_own_unlabelled [OF that _ q, of r]
    by (simp add: step_disconnect_no_room)
  from 1 s1(2) rec step_disconnect_no_room [OF q, of t'] later show ?thesis by blast
qed

theorem consent_only_record_persists_witness:
  "\<not> truthy (d_roomId (sockets init ''A'')) \<and> \<not> nullish (ex_consent ''r2'' ''u1'' True)
   \<and> truthy (JStr ''r2'') \<and> convertible (JStr ''r2'') \<and> truthy (JStr ''u1'')
   \<and> (\<exists>st1 a1 st2 a2.
         step init (''A'', 1, StreamConsent (ex_consent ''r2'' ''u1'' True)) = Inr (st1, a1)
       \<and> sockets st1 = sockets init
       \<and> map_get (room_of (store st1) (JStr ''r2'')) ''A''
           = Some \<lparr>userId = Some (JStr ''u1''), displayName = None,
                   streamAllowed = Some True, lastSeen = 1\<rparr>
       \<and> step st1 (''A'', 9, Disconnect) = Inr (st1, [])
       \<and> run st1 ex_later = Inr (st2, a2)
       \<and> map_get (room_of (store st2) (JStr ''r2'')) ''A''
           = Some \<lparr>userId = Some (JStr ''u1''), displayName = None,
                   streamAllowed = Some True, lastSeen = 1\<rparr>
       \<and> step st2 (''A'', 9, Disconnect) = Inr (st2, []))"
proof -
  have t: "truthy (JStr ''r2'')" "truthy (JStr ''u1'')" by simp_all
  have cv: "convertible (JStr ''r2'')" by (rule convertible_primitive)
  have f: "\<not> truthy (d_roomId (sockets init ''A''))" by (simp add: init_def fresh_def)
  have u: "truthy (js_prop (ex_consent ''r2'' ''u1'' True) ''userId'')"
    by (simp add: ex_consent_props)
  have q: "\<forall>oc \<in> set ex_later. fst oc = ''A'' \<longrightarrow> \<not> writes_data (snd (snd oc))"
    by (simp add: ex_later_def)
  have n: "\<forall>oc \<in> set ex_later. fst oc = ''A'' \<longrightarrow> \<not> names_room (snd (snd oc))"
    by (simp add: ex_later_def)
  have e: "map_get (room_of (store init) (JStr ''r2'')) ''A'' = None"
    by (simp add: init_def empty_store_def room_of_def map_get_def)
  from consent_only_record_persists [of init "''A''" "ex_consent ''r2'' ''u1'' True"
      "JStr ''r2''" ex_later 1 9, OF f ex_consent_props(1) ex_consent_props(2) t(1) cv u q]
  obtain st1 a1 where 1: "step init (''A'', 1, StreamConsent (ex_consent ''r2'' ''u1'' True))
        = Inr (st1, a1)"
    and 2: "sockets st1 = sockets init"
    and 3: "map_get (room_of (store st1) (JStr ''r2'')) ''A''
           = Some \<lparr>userId = Some (JStr ''u1''), displayName = None,
                   streamAllowed = Some True, lastSeen = 1\<rparr>"
    and 4: "step st1 (''A'', 9, Disconnect) = Inr (st1, [])"
    and 5: "\<And>st2 a2. run st1 ex_later = Inr (st2, a2)
                \<Longrightarrow> step st2 (''A'', 9, Disconnect) = Inr (st2, [])
                    \<and> ((\<forall>oc \<in> set ex_later. fst oc = ''A'' \<longrightarrow> \<not> names_room (snd (snd oc)))
                        \<longrightarrow> map_get (room_of (store st2) (JStr ''r2'')) ''A''
                          = map_get (room_of (store st1) (JStr ''r2'')) ''A'')"
    by (auto simp: ex_consent_props e)
  from step_labels_convert [OF 1 labels_convert_init] have "labels_convert st1" .
  from run_total [OF this ex_later_well_formed]
  obtain st2 a2 where 6: "run st1 ex_later = Inr (st2, a2)" by blast
  from 5 [OF 6] n 3 have "step st2 (''A'', 9, Disconnect) = Inr (st2, [])"
    and "map_get (room_of (store st2) (JStr ''r2'')) ''A''
           = Some \<lparr>userId = Some (JStr ''u1''), displayName = None,
                   streamAllowed = Some True, lastSeen = 1\<rparr>"
    by simp_all
  with 1 2 3 4 6 t cv f ex_consent_props(1) [of "''r2''" "''u1''" True]
  show ?thesis by blast
qed

section \<open>Where the code departs from the specification\<close>

text \<open>
  Claim C2 says that the entry of a connection that held a participant object and then
  disconnected is in no later \<open>room:update\<close> for that room. The first run: \<open>A\<close> joins
  \<open>r1\<close>, consents, subscribes to \<open>r1\<close> as admin and disconnects; then \<open>B\<close> joins \<open>r1\<close>.
  The \<open>disconnect\<close> handler finds the role \<open>admin\<close> and skips \<open>removeParticipant\<close>: its own
  \<open>room:update\<close> and the one that follows \<open>B\<close>'s \<open>join\<close> both carry the entry of \<open>A\<close>. The
  second run: \<open>A\<close> joins \<open>r1\<close>, consents for \<open>r2\<close> and disconnects; then \<open>B\<close> joins \<open>r2\<close>.
  The handler cleans \<open>r1\<close>, the room in \<open>socket.data\<close>, and the \<open>room:update\<close> for \<open>r2\<close>
  carries the entry of \<open>A\<close>. Shown are the sends from the \<open>disconnect\<close> on. (When the role
  is \<open>participant\<close>, the room in \<open>socket.data\<close> is cleaned: lemma
  \<open>participant_disconnect_removes\<close>.)
\<close>

theorem disconnect_leaves_entry:
  "map_option (drop 9) (emitted (run init ex_ghost_subscribe))
     = Some [Emit (To (JStr ''room:r1'')) ''admin:offline'' (AdminOffline ''A''),
             Emit (To (JStr ''admin:r1'')) ''room:update''
               (RoomUpdate [\<lparr>e_socketId = ''A'', e_userId = JStr ''u1'',
                              e_displayName = JStr ''u1'', e_lastSeen = 2\<rparr>]),
             SocketJoin ''room:r1'',
             Emit (ToSocket ''B'') ''admin:list'' (AdminList (JStr ''r1'') []),
             Emit (To (JStr ''admin:r1'')) ''room:update''
               (RoomUpdate [\<lparr>e_socketId = ''A'', e_userId = JStr ''u1'',
                              e_displayName = JStr ''u1'', e_lastSeen = 2\<rparr>])]
   \<and> map_option (drop 6) (emitted (run init ex_ghost_consent))
     = Some [Emit (To (JStr ''admin:r1'')) ''room:update'' (RoomUpdate []),
             SocketJoin ''room:r2'',
             Emit (ToSocket ''B'') ''admin:list'' (AdminList (JStr ''r2'') []),
             Emit (To (JStr ''admin:r2'')) ''room:update''
               (RoomUpdate [\<lparr>e_socketId = ''A'', e_userId = JStr ''u1'',
                              e_displayName = JUndefined, e_lastSeen = 2\<rparr>])]"
  by code_simp

text \<open>
  Claim C3 says that an event with a malformed payload, also one that is no object at all,
  is ignored without an exception. An event whose argument is \<open>undefined\<close> (the client sent
  none) or \<open>null\<close> throws a \<open>TypeError\<close> in every handler that destructures its parameter,
  before the guard is reached, with the state as it was and nothing sent; the error ends
  the run. (A payload other than these two that lacks a required field is ignored: lemma
  \<open>missing_fields_ignored\<close>. A handler throws as well, after its guard, on a room id that
  does not convert to a string: lemma \<open>unconvertible_room_id_throws\<close>.)
\<close>

theorem nullish_payload_throws:
  "step init (''A'', 1, Join JUndefined) = Inl (TypeError, init, [])
   \<and> step init (''A'', 1, Join JNull) = Inl (TypeError, init, [])
   \<and> step init (''A'', 1, StreamConsent JUndefined) = Inl (TypeError, init, [])
   \<and> step init (''A'', 1, AdminSubscribe JUndefined) = Inl (TypeError, init, [])
   \<and> step init (''A'', 1, WebrtcOffer JUndefined) = Inl (TypeError, init, [])
   \<and> step init (''A'', 1, WebrtcAnswer JNull) = Inl (TypeError, init, [])
   \<and> step init (''A'', 1, WebrtcIce JUndefined) = Inl (TypeError, init, [])
   \<and> (\<exists>st acts. step init (''B'', 1, Join (ex_join ''r1'' ''u2'')) = Inr (st, acts)
         \<and> run init [(''B'', 1, Join (ex_join ''r1'' ''u2'')), (''A'', 2, Join JUndefined),
                      (''B'', 3, Ping)] = Inl (TypeError, st, acts))"
proof -
  have "\<exists>st acts. step init (''B'', 1, Join (ex_join ''r1'' ''u2'')) = Inr (st, acts)"
    by (rule step_total) (simp add: ex_join_props convertible_primitive)
  then obtain st acts where 1: "step init (''B'', 1, Join (ex_join ''r1'' ''u2'')) = Inr (st, acts)"
    by blast
  have 2: "step st' (''A'', n, Join JUndefined) = Inl (TypeError, st', [])" for st' n
    by (simp add: step_def on_join_def)
  from 1 2 [of st 2] have "run init [(''B'', 1, Join (ex_join ''r1'' ''u2'')),
      (''A'', 2, Join JUndefined), (''B'', 3, Ping)] = Inl (TypeError, st, acts)"
    by simp
  with 1 have "\<exists>st acts. step init (''B'', 1, Join (ex_join ''r1'' ''u2'')) = Inr (st, acts)
         \<and> run init [(''B'', 1, Join (ex_join ''r1'' ''u2'')), (''A'', 2, Join JUndefined),
                      (''B'', 3, Ping)] = Inl (TypeError, st, acts)"
    by blast
  then show ?thesis
    by (simp add: step_def on_join_def on_stream_consent_def on_admin_subscribe_def
          on_webrtc_offer_def on_webrtc_answer_def on_webrtc_ice_def)
qed

end
